theory Spec2Isabelle
  imports Complex_Main "HOL-Library.Word" "HOL-Library.Log_Nat"
begin

section \<open>Guest linear memory and MemoryManager\<close>

text \<open>
  The guest memory (\<^verbatim>\<open>memory.data(store)\<close>) is a buffer of bytes; a \<^typ>\<open>char\<close> is one byte.
  \<^verbatim>\<open>size_t\<close> is a 64-bit word and the buffer is shorter than \<open>2 ^ 64\<close> bytes.
  A raise is a value: \<open>RuntimeError\<close> carries the text of a \<^verbatim>\<open>std::runtime_error\<close>,
  \<open>MemoryFault\<close> is a read or write outside the buffer (undefined behaviour in the source),
  \<open>SelfDeadlock\<close> is a \<^verbatim>\<open>std::lock_guard\<close> taken on a \<^verbatim>\<open>std::mutex\<close> the caller already holds.
\<close>

type_synonym memory = "char list"

datatype failure = RuntimeError string | MemoryFault | SelfDeadlock

text \<open>Reading \<open>n\<close> bytes at an offset of the buffer (\<^verbatim>\<open>std::string(data.data() + off, n)\<close>,
  \<^verbatim>\<open>memcpy\<close>); nothing is touched when \<open>n = 0\<close>.\<close>

definition load :: "memory \<Rightarrow> nat \<Rightarrow> nat \<Rightarrow> failure + string" where
  "load data off n =
     (if n = 0 then Inr []
      else if off + n \<le> length data then Inr (take n (drop off data))
      else Inl MemoryFault)"

text \<open>Four bytes copied into a \<^verbatim>\<open>uint32_t\<close> on a little-endian host.\<close>

definition le32 :: "string \<Rightarrow> 32 word" where
  "le32 bs =
     (case bs of
        [b0, b1, b2, b3] \<Rightarrow>
          of_nat (of_char b0 + 256 * of_char b1 + 65536 * of_char b2 + 16777216 * of_char b3)
      | _ \<Rightarrow> 0)"

text \<open>The fallback loop of \<^verbatim>\<open>read_string\<close>:
  \<^verbatim>\<open>while (end < data.size() && data[end] != 0) end++;\<close>\<close>

function scan_end :: "memory \<Rightarrow> nat \<Rightarrow> nat" where
  "scan_end data e =
     (if e < length data \<and> data ! e \<noteq> CHR 0x00 then scan_end data (Suc e) else e)"
  by pat_completeness auto
termination
  by (relation "measure (\<lambda>(data, e). length data - e)") auto

declare scan_end.simps [simp del]

definition read_string :: "memory \<Rightarrow> 32 word \<Rightarrow> failure + string" where
  "read_string data ptr =
     (if ptr = 0 then Inl (RuntimeError ''null pointer'')
      else
        let ptr_size = (scast ptr :: 64 word);
            data_size = (of_nat (length data) :: 64 word);
            fallback = load data (unat ptr_size) (scan_end data (unat ptr_size) - unat ptr_size)
        in
          if ptr_size + 8 \<le> data_size then
            (case load data (unat ptr_size) 4 of
               Inl e \<Rightarrow> Inl e
             | Inr signature \<Rightarrow>
                 if signature = ''MSGB'' then
                   (case load data (unat ptr_size + 4) 4 of
                      Inl e \<Rightarrow> Inl e
                    | Inr length_bytes \<Rightarrow>
                        let len = le32 length_bytes in
                          if ptr_size + 8 + ucast len \<le> data_size
                          then load data (unat ptr_size + 8) (unat len)
                          else fallback)
                 else fallback)
          else fallback)"

section \<open>Calls into the guest\<close>

text \<open>
  A call of a guest export returns a vector of values; \<^verbatim>\<open>results[0].i32()\<close> is present
  only for a 32-bit integer. The guest is opaque, so what it answers during one host
  operation is an input of the model: the results of \<^verbatim>\<open>alloc_string\<close>, the memory when the
  message is copied in, the results of the export called, and the memory when its result
  is read back. Calls of \<^verbatim>\<open>dealloc_string\<close> and \<^verbatim>\<open>get_allocation_size\<close> have no part in the
  value an operation returns and are left out.
\<close>

datatype val = I32 "32 word" | NonI32

definition result_i32 :: "val list \<Rightarrow> 32 word option" where
  "result_i32 results =
     (case results of [] \<Rightarrow> None | I32 w # _ \<Rightarrow> Some w | NonI32 # _ \<Rightarrow> None)"

record guest_call =
  alloc_results :: "val list"
  alloc_memory :: memory
  call_results :: "val list"
  result_memory :: memory

definition write_string :: "guest_call \<Rightarrow> string \<Rightarrow> failure + 32 word" where
  "write_string g str =
     (case result_i32 (alloc_results g) of
        None \<Rightarrow> Inl (RuntimeError ''allocation failed'')
      | Some ptr \<Rightarrow>
          if ptr = 0 then Inl (RuntimeError ''allocation returned null pointer'')
          else if str = [] \<or> (0 \<le> sint ptr \<and> nat (sint ptr) + length str \<le> length (alloc_memory g))
          then Inr ptr
          else Inl MemoryFault)"

section \<open>EventTracker\<close>

definition reset :: "string set \<Rightarrow> string set" where
  "reset event_ids = {}"

definition add_and_check :: "string \<Rightarrow> string set \<Rightarrow> bool \<times> string set" where
  "add_and_check event_id event_ids = (event_id \<notin> event_ids, insert event_id event_ids)"

section \<open>Cassette\<close>

text \<open>
  The optional exports are present or absent; \<open>event_ids\<close> is the set of the EventTracker;
  \<open>mutex_held\<close> says whether the calling thread already holds the instance mutex.
\<close>

record cassette =
  describe_func :: bool
  info_func :: bool
  dealloc_func :: bool
  get_size_func :: bool
  debug :: bool
  event_ids :: "string set"
  mutex_held :: bool

definition info_stub :: string where
  \<open>info_stub = ''{"supported_nips": []}''\<close>

definition info :: "cassette \<Rightarrow> guest_call \<Rightarrow> failure + string" where
  "info c g =
     (if mutex_held c then Inl SelfDeadlock
      else if \<not> info_func c then Inr info_stub
      else
        (case result_i32 (call_results g) of
           None \<Rightarrow> Inr info_stub
         | Some ptr \<Rightarrow>
             if ptr = 0 then Inr info_stub
             else read_string (result_memory g) ptr))"

section \<open>JSON values\<close>

text \<open>
  The values of \<^verbatim>\<open>nlohmann::json\<close>: an object is kept as a list of members, looked up from
  the front. \<^verbatim>\<open>json::parse\<close> belongs to that library, so the loader's functions take the
  parser as an argument: \<open>None\<close> is a parse error (an exception in the source).
\<close>

datatype json =
    JNull
  | JBool bool
  | JInt int
  | JFloat real
  | JString string
  | JArray "json list"
  | JObject "(string \<times> json) list"

type_synonym parser = "string \<Rightarrow> json option"

definition is_array :: "json \<Rightarrow> bool" where
  "is_array j = (case j of JArray _ \<Rightarrow> True | _ \<Rightarrow> False)"

definition is_object :: "json \<Rightarrow> bool" where
  "is_object j = (case j of JObject _ \<Rightarrow> True | _ \<Rightarrow> False)"

text \<open>\<^verbatim>\<open>size()\<close>: 0 for null, the number of elements or members of an array or object, 1 otherwise.\<close>

definition json_size :: "json \<Rightarrow> nat" where
  "json_size j =
     (case j of
        JNull \<Rightarrow> 0
      | JArray xs \<Rightarrow> length xs
      | JObject kvs \<Rightarrow> length (remdups (map fst kvs))
      | _ \<Rightarrow> 1)"

text \<open>\<^verbatim>\<open>operator[](index)\<close>. Every use in the loader is on an array and within its size, but
  \<^verbatim>\<open>parsed[0]\<close> of the single-message branch on an empty array, where the non-const operator
  fills the array with null.\<close>

definition json_at :: "json \<Rightarrow> nat \<Rightarrow> json" where
  "json_at j i = (case j of JArray xs \<Rightarrow> if i < length xs then xs ! i else JNull | _ \<Rightarrow> JNull)"

text \<open>\<^verbatim>\<open>get<std::string>()\<close> raises a type error on anything but a string.\<close>

definition get_string :: "json \<Rightarrow> string option" where
  "get_string j = (case j of JString s \<Rightarrow> Some s | _ \<Rightarrow> None)"

definition contains :: "json \<Rightarrow> string \<Rightarrow> bool" where
  "contains j k = (case j of JObject kvs \<Rightarrow> map_of kvs k \<noteq> None | _ \<Rightarrow> False)"

text \<open>\<^verbatim>\<open>operator[](key)\<close>, used only on a key the object contains.\<close>

definition json_get :: "json \<Rightarrow> string \<Rightarrow> json" where
  "json_get j k =
     (case j of
        JObject kvs \<Rightarrow> (case map_of kvs k of Some v \<Rightarrow> v | None \<Rightarrow> JNull)
      | _ \<Rightarrow> JNull)"

section \<open>Message processing\<close>

text \<open>The output written to \<^verbatim>\<open>std::cerr\<close> when \<open>debug\<close> is set is not part of the model.\<close>

definition is_duplicate_event :: "json \<Rightarrow> string set \<Rightarrow> bool \<times> string set" where
  "is_duplicate_event parsed ids =
     (if json_at parsed 0 = JString ''EVENT'' \<and> 3 \<le> json_size parsed \<and> is_object (json_at parsed 2)
      then
        let event = json_at parsed 2 in
          if contains event ''id'' then
            (case json_get event ''id'' of
               JString event_id \<Rightarrow>
                 (case add_and_check event_id ids of
                    (inserted, ids') \<Rightarrow> if \<not> inserted then (True, ids') else (False, ids'))
             | _ \<Rightarrow> (False, ids))
          else (False, ids)
      else (False, ids))"

text \<open>Repeated \<^verbatim>\<open>std::getline\<close> on the reply: \<open>cur\<close> is the line read so far. At the end of the
  input a line is delivered only if a character was read.\<close>

fun getlines :: "string \<Rightarrow> string \<Rightarrow> string list" where
  "getlines cur [] = (if cur = [] then [] else [cur])"
| "getlines cur (c # cs) =
     (if c = CHR 0x0A then cur # getlines [] cs else getlines (cur @ [c]) cs)"

text \<open>The body of the second \<^verbatim>\<open>while\<close> loop of \<^verbatim>\<open>process_messages\<close> for one line: whether the
  line is pushed to \<^verbatim>\<open>filtered_messages\<close>, and the tracker afterwards. (The first loop only
  counts lines for the debug output.)\<close>

definition process_line :: "parser \<Rightarrow> string \<Rightarrow> string set \<Rightarrow> bool \<times> string set" where
  "process_line parse message ids =
     (if message = [] then (False, ids)
      else
        (case parse message of
           None \<Rightarrow> (False, ids)
         | Some parsed \<Rightarrow>
             if \<not> is_array parsed \<or> json_size parsed < 2 then (False, ids)
             else
               (case get_string (json_at parsed 0) of
                  None \<Rightarrow> (False, ids)
                | Some msg_type \<Rightarrow>
                    if msg_type \<noteq> ''NOTICE'' \<and> msg_type \<noteq> ''EVENT'' \<and> msg_type \<noteq> ''EOSE''
                    then (False, ids)
                    else if msg_type = ''EVENT'' \<and> 3 \<le> json_size parsed then
                      (case is_duplicate_event parsed ids of
                         (dup, ids') \<Rightarrow> if dup then (False, ids') else (True, ids'))
                    else (True, ids))))"

fun process_lines :: "parser \<Rightarrow> string list \<Rightarrow> string list \<Rightarrow> string set \<Rightarrow> string list \<times> string set" where
  "process_lines parse [] filtered ids = (filtered, ids)"
| "process_lines parse (message # rest) filtered ids =
     (case process_line parse message ids of
        (pushed, ids') \<Rightarrow>
          process_lines parse rest (if pushed then filtered @ [message] else filtered) ids')"

definition process_messages :: "parser \<Rightarrow> string \<Rightarrow> string set \<Rightarrow> string list \<times> string set" where
  "process_messages parse result ids =
     (if CHR 0x0A \<in> set result then process_lines parse (getlines [] result) [] ids
      else
        (case parse result of
           None \<Rightarrow> ([result], ids)
         | Some parsed \<Rightarrow>
             if is_array parsed \<and> json_at parsed 0 = JString ''EVENT'' \<and> 3 \<le> json_size parsed
             then
               (case is_duplicate_event parsed ids of
                  (dup, ids') \<Rightarrow> (if \<not> dup then [result] else [], ids'))
             else ([result], ids)))"

section \<open>send\<close>

text \<open>The first \<^verbatim>\<open>try\<close> block of \<^verbatim>\<open>send\<close>: the tracker after the check for a REQ. Both a
  parse error and the type error of a tag that is no string are swallowed.\<close>

definition send_prepare :: "parser \<Rightarrow> string \<Rightarrow> string set \<Rightarrow> string set" where
  "send_prepare parse message ids =
     (case parse message of
        None \<Rightarrow> ids
      | Some msg_data \<Rightarrow>
          if is_array msg_data \<and> 2 \<le> json_size msg_data then
            (case get_string (json_at msg_data 0) of
               None \<Rightarrow> ids
             | Some msg_type \<Rightarrow> if msg_type = ''REQ'' then reset ids else ids)
          else ids)"

definition notice_failed :: string where
  \<open>notice_failed = ''["NOTICE", "send() failed"]''\<close>

definition notice_null :: string where
  \<open>notice_null = ''["NOTICE", "send() returned null pointer"]''\<close>

text \<open>The end of \<^verbatim>\<open>send\<close>: nothing, the only message, or the messages joined by newlines.\<close>

definition join_filtered :: "string list \<Rightarrow> string" where
  "join_filtered filtered =
     (case filtered of
        [] \<Rightarrow> []
      | [m] \<Rightarrow> m
      | m # ms \<Rightarrow> m @ concat (map (\<lambda>x. CHR 0x0A # x) ms))"

text \<open>\<open>send_messages\<close> is \<^verbatim>\<open>send\<close> up to the list of messages it is about to return (a
  synthesized notice is a list of one); \<open>send\<close> returns their joined text.\<close>

definition send_messages ::
  "parser \<Rightarrow> cassette \<Rightarrow> string \<Rightarrow> guest_call \<Rightarrow> (failure + string list) \<times> cassette" where
  "send_messages parse c message g =
     (if mutex_held c then (Inl SelfDeadlock, c)
      else
        let c1 = c\<lparr>event_ids := send_prepare parse message (event_ids c)\<rparr> in
          (case write_string g message of
             Inl e \<Rightarrow> (Inl e, c1)
           | Inr msg_ptr \<Rightarrow>
               (case result_i32 (call_results g) of
                  None \<Rightarrow> (Inr [notice_failed], c1)
                | Some result_ptr \<Rightarrow>
                    if result_ptr = 0 then (Inr [notice_null], c1)
                    else
                      (case read_string (result_memory g) result_ptr of
                         Inl e \<Rightarrow> (Inl e, c1)
                       | Inr result_str \<Rightarrow>
                           (case process_messages parse result_str (event_ids c1) of
                              (filtered, ids') \<Rightarrow> (Inr filtered, c1\<lparr>event_ids := ids'\<rparr>))))))"

definition send ::
  "parser \<Rightarrow> cassette \<Rightarrow> string \<Rightarrow> guest_call \<Rightarrow> (failure + string) \<times> cassette" where
  "send parse c message g =
     (if mutex_held c then (Inl SelfDeadlock, c)
      else
        let c1 = c\<lparr>event_ids := send_prepare parse message (event_ids c)\<rparr> in
          (case write_string g message of
             Inl e \<Rightarrow> (Inl e, c1)
           | Inr msg_ptr \<Rightarrow>
               (case result_i32 (call_results g) of
                  None \<Rightarrow> (Inr notice_failed, c1)
                | Some result_ptr \<Rightarrow>
                    if result_ptr = 0 then (Inr notice_null, c1)
                    else
                      (case read_string (result_memory g) result_ptr of
                         Inl e \<Rightarrow> (Inl e, c1)
                       | Inr result_str \<Rightarrow>
                           (case process_messages parse result_str (event_ids c1) of
                              (filtered, ids') \<Rightarrow>
                                (Inr (join_filtered filtered), c1\<lparr>event_ids := ids'\<rparr>))))))"

section \<open>describe\<close>

text \<open>\<^verbatim>\<open>std::to_string\<close> of an \<^verbatim>\<open>int\<close>.\<close>

function show_nat :: "nat \<Rightarrow> string" where
  "show_nat n =
     (if n < 10 then [char_of (48 + n)] else show_nat (n div 10) @ [char_of (48 + n mod 10)])"
  by pat_completeness auto
termination
  by (relation "measure id") auto

declare show_nat.simps [simp del]

definition to_string :: "int \<Rightarrow> string" where
  "to_string i = (if i < 0 then CHR ''-'' # show_nat (nat (- i)) else show_nat (nat i))"

text \<open>\<^verbatim>\<open>get<int>()\<close>: a number or a boolean converts, anything else raises a type error. An
  integer is narrowed to 32 bits; a float is truncated towards zero (outside the range of
  \<^verbatim>\<open>int\<close> the conversion is undefined in the source; the model narrows it like an integer).\<close>

definition get_int :: "json \<Rightarrow> int option" where
  "get_int j =
     (case j of
        JInt n \<Rightarrow> Some (sint (word_of_int n :: 32 word))
      | JFloat r \<Rightarrow> Some (sint (word_of_int (if 0 \<le> r then \<lfloor>r\<rfloor> else \<lceil>r\<rceil>) :: 32 word))
      | JBool b \<Rightarrow> Some (if b then 1 else 0)
      | _ \<Rightarrow> None)"

text \<open>The loop over \<^verbatim>\<open>supported_nips\<close>; \<open>first\<close> is \<^verbatim>\<open>i == 0\<close>, \<open>None\<close> the type error.\<close>

fun append_nips :: "string \<Rightarrow> bool \<Rightarrow> json list \<Rightarrow> string option" where
  "append_nips description first [] = Some description"
| "append_nips description first (nip # rest) =
     (case get_int nip of
        None \<Rightarrow> None
      | Some n \<Rightarrow>
          append_nips ((if first then description else description @ '', '') @ to_string n)
            False rest)"

text \<open>The \<^verbatim>\<open>try\<close> block of \<^verbatim>\<open>describe\<close>, applied to the string \<^verbatim>\<open>info()\<close> returned.\<close>

definition describe_from_info :: "parser \<Rightarrow> string \<Rightarrow> string" where
  "describe_from_info parse info_str =
     (case parse info_str of
        None \<Rightarrow> ''Cassette module''
      | Some info_json \<Rightarrow>
          let description =
                (if contains info_json ''name'' then
                   (case json_get info_json ''name'' of JString name \<Rightarrow> name | _ \<Rightarrow> ''Cassette'')
                 else ''Cassette'')
          in
            if contains info_json ''supported_nips'' then
              (case json_get info_json ''supported_nips'' of
                 JArray nips \<Rightarrow>
                   if nips \<noteq> [] then
                     (case append_nips (description @ '' (supports NIPs: '') True nips of
                        None \<Rightarrow> ''Cassette module''
                      | Some d \<Rightarrow> d @ '')'')
                   else description
               | _ \<Rightarrow> description)
            else description)"

text \<open>\<^verbatim>\<open>describe\<close> takes the instance mutex and, when the export is absent, calls \<^verbatim>\<open>info()\<close>
  while holding it; \<^verbatim>\<open>info()\<close> takes the same mutex.\<close>

definition describe :: "parser \<Rightarrow> cassette \<Rightarrow> guest_call \<Rightarrow> failure + string" where
  "describe parse c g =
     (if mutex_held c then Inl SelfDeadlock
      else if describe_func c then
        (case result_i32 (call_results g) of
           None \<Rightarrow> Inl (RuntimeError ''describe function failed'')
         | Some ptr \<Rightarrow> read_string (result_memory g) ptr)
      else
        (case info (c\<lparr>mutex_held := True\<rparr>) g of
           Inl e \<Rightarrow> Inl e
         | Inr info_str \<Rightarrow> Inr (describe_from_info parse info_str)))"

section \<open>A JSON parser for concrete inputs\<close>

text \<open>
  The general theorems below hold for every parser. To run the loader on concrete replies,
  \<open>json_parse\<close> reads the JSON grammar (RFC 8259) by recursive descent, bounded by the length
  of its input. Two parts of the grammar are left out and reported as parse errors: numbers
  with a fraction or an exponent, and \<^verbatim>\<open>\u\<close> escapes in strings; no concrete input below uses
  them. A repeated member name keeps its last value, as the library does.
\<close>

definition is_ws :: "char \<Rightarrow> bool" where
  "is_ws c = (c = CHR 0x20 \<or> c = CHR 0x09 \<or> c = CHR 0x0A \<or> c = CHR 0x0D)"

fun skip_ws :: "string \<Rightarrow> string" where
  "skip_ws [] = []"
| "skip_ws (c # cs) = (if is_ws c then skip_ws cs else c # cs)"

definition is_digit :: "char \<Rightarrow> bool" where
  "is_digit c = (48 \<le> (of_char c :: nat) \<and> (of_char c :: nat) \<le> 57)"

definition unescape :: "char \<Rightarrow> char option" where
  "unescape e =
     (if e = CHR 0x22 \<or> e = CHR 0x5C \<or> e = CHR ''/'' then Some e
      else if e = CHR ''b'' then Some (CHR 0x08)
      else if e = CHR ''f'' then Some (CHR 0x0C)
      else if e = CHR ''n'' then Some (CHR 0x0A)
      else if e = CHR ''r'' then Some (CHR 0x0D)
      else if e = CHR ''t'' then Some (CHR 0x09)
      else None)"

text \<open>The characters of a string after its opening quote, up to the closing one.\<close>

fun lex_string :: "string \<Rightarrow> string \<Rightarrow> (string \<times> string) option" where
  "lex_string acc [] = None"
| "lex_string acc [c] = (if c = CHR 0x22 then Some (acc, []) else None)"
| "lex_string acc (c # d # cs) =
     (if c = CHR 0x22 then Some (acc, d # cs)
      else if c = CHR 0x5C then
        (case unescape d of None \<Rightarrow> None | Some ch \<Rightarrow> lex_string (acc @ [ch]) cs)
      else if (of_char c :: nat) < 32 then None
      else lex_string (acc @ [c]) (d # cs))"

fun lex_digits :: "nat \<Rightarrow> string \<Rightarrow> nat \<times> string" where
  "lex_digits acc [] = (acc, [])"
| "lex_digits acc (c # cs) =
     (if is_digit c then lex_digits (10 * acc + (of_char c - 48)) cs else (acc, c # cs))"

definition lex_number :: "string \<Rightarrow> (json \<times> string) option" where
  "lex_number s =
     (let negative = (s \<noteq> [] \<and> hd s = CHR ''-'');
          ds = (if negative then tl s else s)
      in
        if ds = [] \<or> \<not> is_digit (hd ds) then None
        else if hd ds = CHR ''0'' \<and> tl ds \<noteq> [] \<and> is_digit (hd (tl ds)) then None
        else
          (case lex_digits 0 ds of
             (n, rest) \<Rightarrow>
               if rest \<noteq> [] \<and> (hd rest = CHR ''.'' \<or> hd rest = CHR ''e'' \<or> hd rest = CHR ''E'')
               then None
               else Some (JInt (if negative then - int n else int n), rest)))"

definition expect :: "string \<Rightarrow> string \<Rightarrow> string option" where
  "expect word s = (if take (length word) s = word then Some (drop (length word) s) else None)"

definition set_member :: "string \<Rightarrow> json \<Rightarrow> (string \<times> json) list \<Rightarrow> (string \<times> json) list" where
  "set_member k v kvs = filter (\<lambda>kv. fst kv \<noteq> k) kvs @ [(k, v)]"

fun parse_value :: "nat \<Rightarrow> string \<Rightarrow> (json \<times> string) option"
  and parse_elements :: "nat \<Rightarrow> json list \<Rightarrow> string \<Rightarrow> (json list \<times> string) option"
  and parse_members ::
    "nat \<Rightarrow> (string \<times> json) list \<Rightarrow> string \<Rightarrow> ((string \<times> json) list \<times> string) option"
where
  "parse_value 0 s = None"
| "parse_value (Suc n) s =
     (case skip_ws s of
        [] \<Rightarrow> None
      | c # cs \<Rightarrow>
          if c = CHR ''n'' then map_option (Pair JNull) (expect ''ull'' cs)
          else if c = CHR ''t'' then map_option (Pair (JBool True)) (expect ''rue'' cs)
          else if c = CHR ''f'' then map_option (Pair (JBool False)) (expect ''alse'' cs)
          else if c = CHR 0x22 then
            map_option (\<lambda>(str, rest). (JString str, rest)) (lex_string [] cs)
          else if c = CHR ''['' then
            (case expect '']'' (skip_ws cs) of
               Some rest \<Rightarrow> Some (JArray [], rest)
             | None \<Rightarrow> map_option (\<lambda>(xs, rest). (JArray xs, rest)) (parse_elements n [] cs))
          else if c = CHR ''{'' then
            (case expect ''}'' (skip_ws cs) of
               Some rest \<Rightarrow> Some (JObject [], rest)
             | None \<Rightarrow> map_option (\<lambda>(kvs, rest). (JObject kvs, rest)) (parse_members n [] cs))
          else lex_number (c # cs))"
| "parse_elements 0 acc s = None"
| "parse_elements (Suc n) acc s =
     (case parse_value n s of
        None \<Rightarrow> None
      | Some (v, rest) \<Rightarrow>
          (case skip_ws rest of
             [] \<Rightarrow> None
           | c # rest' \<Rightarrow>
               if c = CHR '','' then parse_elements n (acc @ [v]) rest'
               else if c = CHR '']'' then Some (acc @ [v], rest')
               else None))"
| "parse_members 0 acc s = None"
| "parse_members (Suc n) acc s =
     (case expect [CHR 0x22] (skip_ws s) of
        None \<Rightarrow> None
      | Some s1 \<Rightarrow>
          (case lex_string [] s1 of
             None \<Rightarrow> None
           | Some (k, s2) \<Rightarrow>
               (case expect '':'' (skip_ws s2) of
                  None \<Rightarrow> None
                | Some s3 \<Rightarrow>
                    (case parse_value n s3 of
                       None \<Rightarrow> None
                     | Some (v, rest) \<Rightarrow>
                         (case skip_ws rest of
                            [] \<Rightarrow> None
                          | c # rest' \<Rightarrow>
                              if c = CHR '','' then parse_members n (set_member k v acc) rest'
                              else if c = CHR ''}'' then Some (set_member k v acc, rest')
                              else None)))))"

definition json_parse :: parser where
  "json_parse s =
     (case parse_value (Suc (length s)) s of
        None \<Rightarrow> None
      | Some (v, rest) \<Rightarrow> if skip_ws rest = [] then Some v else None)"

section \<open>The benchmark command line\<close>

text \<open>
  \<^verbatim>\<open>std::stoi\<close>: white space is skipped, then an optional sign and decimal digits are read, and
  what follows is ignored. \<open>None\<close> is \<^verbatim>\<open>std::invalid_argument\<close> (no digit) or
  \<^verbatim>\<open>std::out_of_range\<close> (the value does not fit an \<^verbatim>\<open>int\<close>).
\<close>

definition is_space :: "char \<Rightarrow> bool" where
  "is_space c = (c = CHR 0x20 \<or> (9 \<le> (of_char c :: nat) \<and> (of_char c :: nat) \<le> 13))"

definition stoi :: "string \<Rightarrow> int option" where
  "stoi str =
     (let s = dropWhile is_space str;
          negative = (s \<noteq> [] \<and> hd s = CHR ''-'');
          ds = (if s \<noteq> [] \<and> (hd s = CHR ''-'' \<or> hd s = CHR ''+'') then tl s else s)
      in
        if ds = [] \<or> \<not> is_digit (hd ds) then None
        else
          let v = (if negative then - int (fst (lex_digits 0 ds)) else int (fst (lex_digits 0 ds)))
          in if - 2147483648 \<le> v \<and> v \<le> 2147483647 then Some v else None)"

text \<open>The loop over \<^verbatim>\<open>argv[1..]\<close>; \<open>None\<close> when \<^verbatim>\<open>std::stoi\<close> raises. A flag in last position is
  skipped.\<close>

fun parse_arguments :: "string list \<Rightarrow> int \<Rightarrow> string list \<Rightarrow> (int \<times> string list) option" where
  "parse_arguments [] iterations cassette_paths = Some (iterations, cassette_paths)"
| "parse_arguments [arg] iterations cassette_paths =
     (if arg = ''--iterations'' \<or> arg = ''-i'' then Some (iterations, cassette_paths)
      else Some (iterations, cassette_paths @ [arg]))"
| "parse_arguments (arg # next # rest) iterations cassette_paths =
     (if arg = ''--iterations'' \<or> arg = ''-i'' then
        (case stoi next of
           None \<Rightarrow> None
         | Some n \<Rightarrow> parse_arguments rest n cassette_paths)
      else parse_arguments (next # rest) iterations (cassette_paths @ [arg]))"

text \<open>
  What the file system and the loader answer for one path: \<^verbatim>\<open>fs::exists\<close> is false; it raises
  itself; \<^verbatim>\<open>benchmark_cassette\<close> returns a result (it catches the loader's exceptions
  itself); or \<^verbatim>\<open>benchmark_cassette\<close> raises a \<^verbatim>\<open>std::exception\<close>, which \<^verbatim>\<open>main\<close> catches.
\<close>

datatype path_outcome = NotFound | ExistsRaises | Benchmarked | BenchmarkRaises

record environment =
  outcome :: "string \<Rightarrow> path_outcome"
  report_raises :: bool

text \<open>The loop over the paths: the paths with a result, or \<open>None\<close> for the uncaught exception.\<close>

fun run_benchmarks :: "(string \<Rightarrow> path_outcome) \<Rightarrow> string list \<Rightarrow> string list \<Rightarrow> string list option" where
  "run_benchmarks out [] results = Some results"
| "run_benchmarks out (path # rest) results =
     (case out path of
        NotFound \<Rightarrow> run_benchmarks out rest results
      | ExistsRaises \<Rightarrow> None
      | Benchmarked \<Rightarrow> run_benchmarks out rest (results @ [path])
      | BenchmarkRaises \<Rightarrow> run_benchmarks out rest results)"

text \<open>\<open>Exit n\<close> is the value \<^verbatim>\<open>main\<close> returns; \<open>Terminated\<close> is an exception nothing catches.
  \<open>args\<close> is \<^verbatim>\<open>argv\<close> without the program name. \<open>report_raises\<close> says whether printing the
  table and dumping the JSON document raises.\<close>

datatype exit_status = Exit int | Terminated

definition main :: "environment \<Rightarrow> string list \<Rightarrow> exit_status" where
  "main env args =
     (if args = [] then Exit 1
      else
        (case parse_arguments args 100 [] of
           None \<Rightarrow> Terminated
         | Some (iterations, cassette_paths) \<Rightarrow>
             if cassette_paths = [] then Exit 1
             else
               (case run_benchmarks (outcome env) cassette_paths [] of
                  None \<Rightarrow> Terminated
                | Some results \<Rightarrow>
                    if results \<noteq> [] \<and> report_raises env then Terminated else Exit 0)))"

section \<open>The benchmark percentile\<close>

text \<open>
  A finite \<^verbatim>\<open>double\<close> is \<open>Double m e\<close>, the number \<open>m * 2 ^ e\<close>; \<open>dval\<close> is its value. An
  arithmetic operation returns the exact result rounded to a significand of 53 bits, to
  the nearest and on a tie to the even one (the default rounding of IEEE 754 binary64, as
  on x86-64). The exponent is not bounded: an overflow is a value that does not fit an
  \<^verbatim>\<open>int\<close>, and a result below the normal range is truncated to 0 with or without the
  coarser rounding it gets there, so the index computed is the same. \<open>bitlen\<close> is the
  number of binary digits of an integer.
  \<^verbatim>\<open>static_cast<int>\<close> truncates towards zero and is undefined (\<open>None\<close>) when the result does
  not fit. The sample is a list of reals (NaN left out), sorted ascending as \<^verbatim>\<open>std::sort\<close>
  does; an index below zero is a read outside the vector (\<open>None\<close>).
\<close>

datatype double = Double int int

definition dval :: "double \<Rightarrow> real" where
  "dval x = (case x of Double m e \<Rightarrow> if 0 \<le> e then of_int m * 2 ^ nat e else of_int m / 2 ^ nat (- e))"

text \<open>The value \<open>m * 2 ^ e\<close> rounded to 53 bits.\<close>

definition round53 :: "int \<Rightarrow> int \<Rightarrow> double" where
  "round53 m e =
     (let s = bitlen \<bar>m\<bar> - 53 in
        if s \<le> 0 then Double m e
        else
          let d = 2 ^ nat s; q = \<bar>m\<bar> div d; r = \<bar>m\<bar> mod d;
              q' = (if d < 2 * r \<or> (2 * r = d \<and> odd q) then q + 1 else q)
          in Double (sgn m * q') (e + s))"

text \<open>\<^verbatim>\<open>values.size()\<close> converted to \<^verbatim>\<open>double\<close>, and the product of two doubles.\<close>

definition of_size :: "nat \<Rightarrow> double" where
  "of_size n = round53 (int n) 0"

definition mult_double :: "double \<Rightarrow> double \<Rightarrow> double" where
  "mult_double x y = (case x of Double m1 e1 \<Rightarrow> case y of Double m2 e2 \<Rightarrow> round53 (m1 * m2) (e1 + e2))"

text \<open>\<^verbatim>\<open>static_cast<int>\<close> of a double.\<close>

definition to_int :: "double \<Rightarrow> int option" where
  "to_int x =
     (case x of Double m e \<Rightarrow>
        let t = (if 0 \<le> e then m * 2 ^ nat e else sgn m * (\<bar>m\<bar> div 2 ^ nat (- e)))
        in if - 2147483648 \<le> t \<and> t \<le> 2147483647 then Some t else None)"

text \<open>The clamp is \<^verbatim>\<open>static_cast<int>(values.size() - 1)\<close>, a narrowing to 32 bits.\<close>

definition percentile :: "real list \<Rightarrow> double \<Rightarrow> real option" where
  "percentile values p =
     (if values = [] then Some 0
      else
        (case to_int (mult_double (of_size (length values)) p) of
           None \<Rightarrow> None
         | Some index \<Rightarrow>
             let i = min index (sint (word_of_nat (length values - 1) :: 32 word))
             in if i < 0 then None else Some (sort values ! nat i)))"

section \<open>Notions used to state the properties\<close>

text \<open>The tag of a message: the first element of the array it parses to, when that is a
  string.\<close>

definition message_tag :: "parser \<Rightarrow> string \<Rightarrow> string option" where
  "message_tag parse m =
     (case parse m of
        None \<Rightarrow> None
      | Some parsed \<Rightarrow> if is_array parsed then get_string (json_at parsed 0) else None)"

definition known_tag :: "string option \<Rightarrow> bool" where
  "known_tag t = (t = Some ''EVENT'' \<or> t = Some ''NOTICE'' \<or> t = Some ''EOSE'')"

text \<open>The event id of a message: it is an array of at least three elements with the tag
  EVENT, whose third element is an object carrying a string \<open>id\<close>.\<close>

definition event_id :: "json \<Rightarrow> string option" where
  "event_id parsed =
     (if is_array parsed \<and> json_at parsed 0 = JString ''EVENT'' \<and> 3 \<le> json_size parsed \<and>
         is_object (json_at parsed 2) \<and> contains (json_at parsed 2) ''id''
      then get_string (json_get (json_at parsed 2) ''id'')
      else None)"

definition event_id_of :: "parser \<Rightarrow> string \<Rightarrow> string option" where
  "event_id_of parse m = (case parse m of None \<Rightarrow> None | Some parsed \<Rightarrow> event_id parsed)"

definition event_ids_of :: "parser \<Rightarrow> string list \<Rightarrow> string list" where
  "event_ids_of parse ms = List.map_filter (event_id_of parse) ms"

text \<open>A message on which \<^verbatim>\<open>send\<close> resets the tracker: an array of at least two elements whose
  first is the string REQ.\<close>

definition is_req :: "parser \<Rightarrow> string \<Rightarrow> bool" where
  "is_req parse message =
     (case parse message of
        None \<Rightarrow> False
      | Some msg_data \<Rightarrow>
          is_array msg_data \<and> 2 \<le> json_size msg_data \<and> json_at msg_data 0 = JString ''REQ'')"

text \<open>A sequence of \<^verbatim>\<open>send\<close> calls on one cassette, each with what the guest answers: the
  messages returned to the caller, in order (a call that raises returns none).\<close>

fun send_all :: "parser \<Rightarrow> cassette \<Rightarrow> (string \<times> guest_call) list \<Rightarrow> string list \<times> cassette" where
  "send_all parse c [] = ([], c)"
| "send_all parse c ((message, g) # calls) =
     (case send_messages parse c message g of
        (r, c') \<Rightarrow>
          (case send_all parse c' calls of
             (out, c'') \<Rightarrow> ((case r of Inl e \<Rightarrow> [] | Inr ms \<Rightarrow> ms) @ out, c'')))"

text \<open>The number of elements of the array a message parses to (0 when it does not parse
  to an array).\<close>

definition message_elements :: "parser \<Rightarrow> string \<Rightarrow> nat" where
  "message_elements parse m =
     (case parse m of
        None \<Rightarrow> 0
      | Some parsed \<Rightarrow> if is_array parsed then json_size parsed else 0)"

text \<open>A line with the outer shape of a protocol message: not empty, an array of at least
  two elements, with one of the three tags.\<close>

definition accepted_line :: "parser \<Rightarrow> string \<Rightarrow> bool" where
  "accepted_line parse m =
     (m \<noteq> [] \<and> known_tag (message_tag parse m) \<and> 2 \<le> message_elements parse m)"

text \<open>The reasons for which a line of a reply with newlines is dropped: it is empty, it
  fails to parse, it carries no known tag, it has fewer than two elements, or it is an
  EVENT whose id the tracker holds. A reply without a newline is a single candidate, and
  is dropped only as such a duplicate EVENT.\<close>

definition duplicate_event :: "parser \<Rightarrow> string set \<Rightarrow> string \<Rightarrow> bool" where
  "duplicate_event parse ids m =
     (case event_id_of parse m of None \<Rightarrow> False | Some i \<Rightarrow> i \<in> ids)"

definition dropped_line :: "parser \<Rightarrow> string set \<Rightarrow> string \<Rightarrow> bool" where
  "dropped_line parse ids m =
     (m = [] \<or> parse m = None \<or> \<not> known_tag (message_tag parse m) \<or>
      message_elements parse m < 2 \<or> duplicate_event parse ids m)"

definition every_candidate_dropped :: "parser \<Rightarrow> string set \<Rightarrow> string \<Rightarrow> bool" where
  "every_candidate_dropped parse ids result =
     (if CHR 0x0A \<in> set result then list_all (dropped_line parse ids) (getlines [] result)
      else duplicate_event parse ids result)"

text \<open>The cassette paths the benchmark takes from its arguments (none when \<^verbatim>\<open>std::stoi\<close>
  raises).\<close>

definition cassette_paths_of :: "string list \<Rightarrow> string list" where
  "cassette_paths_of args =
     (case parse_arguments args 100 [] of
        None \<Rightarrow> []
      | Some (iterations, cassette_paths) \<Rightarrow> cassette_paths)"

section \<open>Concrete instances\<close>

text \<open>A cassette with every export and an empty tracker; a guest that allocates at address 8
  of a 256-byte memory and answers a call with the given results and memory; a guest whose
  result is the null-terminated string \<open>reply\<close> at address 1.\<close>

definition example_cassette :: cassette where
  "example_cassette =
     \<lparr>describe_func = True, info_func = True, dealloc_func = True, get_size_func = True,
      debug = False, event_ids = {}, mutex_held = False\<rparr>"

definition guest_returns :: "val list \<Rightarrow> memory \<Rightarrow> guest_call" where
  "guest_returns results mem =
     \<lparr>alloc_results = [I32 8], alloc_memory = replicate 256 (CHR 0x00),
      call_results = results, result_memory = mem\<rparr>"

definition guest_says :: "string \<Rightarrow> guest_call" where
  "guest_says reply = guest_returns [I32 1] (CHR 0x00 # reply @ [CHR 0x00])"

text \<open>Messages and replies of the examples; \<open>seen_a\<close> is a cassette whose tracker holds the
  event id \<open>a\<close>.\<close>

abbreviation req_s1 :: string where \<open>req_s1 \<equiv> ''["REQ","s1",{}]''\<close>
abbreviation close_s1 :: string where \<open>close_s1 \<equiv> ''["CLOSE","s1"]''\<close>
abbreviation event_a :: string where \<open>event_a \<equiv> ''["EVENT","s1",{"id":"a"}]''\<close>
abbreviation eose_s1 :: string where \<open>eose_s1 \<equiv> ''["EOSE","s1"]''\<close>
abbreviation bogus_x :: string where \<open>bogus_x \<equiv> ''["BOGUS","x"]''\<close>
abbreviation notice_ok :: string where \<open>notice_ok \<equiv> ''["NOTICE","ok"]''\<close>
abbreviation foo_notice_bogus :: string where
  \<open>foo_notice_bogus \<equiv> ''FOO\<newline>["NOTICE","ok"]\<newline>["BOGUS","x"]''\<close>
abbreviation event_event_eose :: string where
  \<open>event_event_eose \<equiv>
     ''["EVENT","s1",{"id":"a"}]\<newline>["EVENT","s1",{"id":"a"}]\<newline>["EOSE","s1"]''\<close>
abbreviation event_foo_bogus :: string where
  \<open>event_foo_bogus \<equiv> ''["EVENT","s1",{"id":"a"}]\<newline>FOO\<newline>["BOGUS","x"]''\<close>
abbreviation seen_a :: cassette where "seen_a \<equiv> example_cassette\<lparr>event_ids := {''a''}\<rparr>"

text \<open>A file system without any of the paths, and one where every path is a cassette that
  loads.\<close>

definition nothing_found :: environment where
  "nothing_found = \<lparr>outcome = (\<lambda>path. NotFound), report_raises = False\<rparr>"

definition all_loadable :: environment where
  "all_loadable = \<lparr>outcome = (\<lambda>path. Benchmarked), report_raises = False\<rparr>"

text \<open>The double nearest to 0.95.\<close>

definition p95 :: double where
  "p95 = Double 8556839292003942 (- 53)"

section \<open>read_string\<close>

lemma scan_end_eq:
  "scan_end data e =
     (if e \<le> length data then e + length (takeWhile (\<lambda>b. b \<noteq> CHR 0x00) (drop e data)) else e)"
proof (induction data e rule: scan_end.induct)
  case (1 data e)
  show ?case
  proof (cases "e < length data \<and> data ! e \<noteq> CHR 0x00")
    case True
    then have d: "drop e data = data ! e # drop (Suc e) data"
      by (simp add: Cons_nth_drop_Suc)
    from True have "scan_end data e = scan_end data (Suc e)"
      by (subst scan_end.simps) simp
    also have "\<dots> = Suc e + length (takeWhile (\<lambda>b. b \<noteq> CHR 0x00) (drop (Suc e) data))"
      using True "1.IH" by simp
    finally show ?thesis using True d by simp
  next
    case False
    then have s: "scan_end data e = e"
      by (subst scan_end.simps) auto
    show ?thesis
    proof (cases "e < length data")
      case True
      with False have "data ! e = CHR 0x00" by simp
      with True have "drop e data = CHR 0x00 # drop (Suc e) data"
        by (metis Cons_nth_drop_Suc)
      then show ?thesis using s True by simp
    next
      case False
      then show ?thesis using s by simp
    qed
  qed
qed

text \<open>The fallback read never fails: it is the run of bytes from the offset up to the first
  zero byte or the end of the memory, and it is empty from the end of the memory on.\<close>

lemma fallback_eq:
  "load data p (scan_end data p - p) = Inr (takeWhile (\<lambda>b. b \<noteq> CHR 0x00) (drop p data))"
proof (cases "p \<le> length data")
  case True
  let ?t = "takeWhile (\<lambda>b. b \<noteq> CHR 0x00) (drop p data)"
  have n: "scan_end data p - p = length ?t" using True by (simp add: scan_end_eq)
  have le: "p + length ?t \<le> length data"
    using length_takeWhile_le [of "\<lambda>b. b \<noteq> CHR 0x00" "drop p data"] True by simp
  have tk: "take (length ?t) (drop p data) = ?t"
    by (rule takeWhile_eq_take [symmetric])
  show ?thesis using n le tk by (auto simp: load_def)
next
  case False
  then show ?thesis by (simp add: scan_end_eq load_def)
qed

lemma read_string_unfold:
  "read_string data ptr =
     (if ptr = 0 then Inl (RuntimeError ''null pointer'')
      else
        let ptr_size = (scast ptr :: 64 word);
            data_size = (of_nat (length data) :: 64 word);
            fallback = Inr (takeWhile (\<lambda>b. b \<noteq> CHR 0x00) (drop (unat ptr_size) data))
        in
          if ptr_size + 8 \<le> data_size then
            (case load data (unat ptr_size) 4 of
               Inl e \<Rightarrow> Inl e
             | Inr signature \<Rightarrow>
                 if signature = ''MSGB'' then
                   (case load data (unat ptr_size + 4) 4 of
                      Inl e \<Rightarrow> Inl e
                    | Inr length_bytes \<Rightarrow>
                        let len = le32 length_bytes in
                          if ptr_size + 8 + ucast len \<le> data_size
                          then load data (unat ptr_size + 8) (unat len)
                          else fallback)
                 else fallback)
          else fallback)"
  unfolding read_string_def fallback_eq ..

lemma unat_scast_nonneg:
  assumes "0 \<le> sint (ptr :: 32 word)"
  shows "unat (scast ptr :: 64 word) = nat (sint ptr)"
proof -
  have lt: "sint ptr < 2 ^ 31" using sint_lt [of ptr] by simp
  have "take_bit 64 (sint ptr) = sint ptr"
    using assms lt by (simp add: take_bit_int_eq_self)
  moreover have "unat (scast ptr :: 64 word) = unat (word_of_int (sint ptr) :: 64 word)"
    by (simp only: scast_eq)
  moreover have "unat (word_of_int (sint ptr) :: 64 word) = nat (take_bit 64 (sint ptr))"
    by (simp only: unsigned_of_int) simp
  ultimately show ?thesis by simp
qed

lemma load_in_range:
  "off + n \<le> length data \<Longrightarrow> load data off n = Inr (take n (drop off data))"
  by (simp add: load_def)

text \<open>
  For a pointer that is positive as an \<^verbatim>\<open>int32_t\<close>, in a memory of at most 4 GiB,
  \<^verbatim>\<open>read_string\<close> returns the MSGB payload when the magic matches and the declared length
  fits, and otherwise the bytes from the pointer up to the first zero byte or the end of
  the memory; it never fails there.
\<close>

lemma read_string_in_range:
  fixes data :: memory and ptr :: "32 word"
  defines "p \<equiv> nat (sint ptr)"
  defines "len \<equiv> unat (le32 (take 4 (drop (p + 4) data)))"
  assumes pos: "0 < sint ptr" and size: "length data \<le> 2 ^ 32"
  shows "read_string data ptr =
     Inr (if p + 8 \<le> length data \<and> take 4 (drop p data) = ''MSGB'' \<and> p + 8 + len \<le> length data
          then take len (drop (p + 8) data)
          else takeWhile (\<lambda>b. b \<noteq> CHR 0x00) (drop p data))"
proof -
  let ?ps = "scast ptr :: 64 word"
  let ?ds = "of_nat (length data) :: 64 word"
  have nz: "ptr \<noteq> 0" using pos by auto
  have up: "unat ?ps = p" using pos by (simp add: unat_scast_nonneg p_def)
  have plt: "p < 2 ^ 31" using sint_lt [of ptr] pos by (simp add: p_def)
  have uds: "unat ?ds = length data" using size by (simp add: unat_of_nat)
  have u8: "unat (?ps + 8) = p + 8"
  proof -
    have "unat ?ps + unat (8 :: 64 word) < 2 ^ LENGTH(64)" using up plt by simp
    then have "unat (?ps + 8) = unat ?ps + unat (8 :: 64 word)" by (simp only: unat_add_lem)
    then show ?thesis using up by simp
  qed
  have c1: "?ps + 8 \<le> ?ds \<longleftrightarrow> p + 8 \<le> length data"
    by (simp only: word_le_nat_alt u8 uds)
  have c2: "?ps + 8 + ucast w \<le> ?ds \<longleftrightarrow> p + 8 + unat w \<le> length data" for w :: "32 word"
  proof -
    have uw: "unat (ucast w :: 64 word) = unat w"
      by (simp add: unsigned_ucast_eq take_bit_nat_eq_self unsigned_less [of w, THEN less_trans])
    have wl: "unat w < 2 ^ 32" using unsigned_less [of w] by simp
    have "unat (?ps + 8) + unat (ucast w :: 64 word) < 2 ^ LENGTH(64)"
      using u8 uw plt wl by simp
    then have "unat (?ps + 8 + ucast w) = unat (?ps + 8) + unat (ucast w :: 64 word)"
      by (simp only: unat_add_lem)
    then show ?thesis by (simp only: word_le_nat_alt u8 uw uds)
  qed
  show ?thesis
  proof (cases "p + 8 \<le> length data")
    case False
    then show ?thesis using nz by (simp add: read_string_unfold Let_def c1 up)
  next
    case True
    then have l1: "load data p 4 = Inr (take 4 (drop p data))"
      and l2: "load data (p + 4) 4 = Inr (take 4 (drop (p + 4) data))"
      by (simp_all add: load_in_range)
    have l3: "p + 8 + len \<le> length data \<Longrightarrow>
        load data (p + 8) len = Inr (take len (drop (p + 8) data))"
      by (simp add: load_in_range)
    show ?thesis
      using nz True l3
      by (simp add: read_string_unfold Let_def c1 c2 up l1 l2 len_def)
  qed
qed

text \<open>The framed result \<^verbatim>\<open>M S G B 05 00 00 00 h e l l o\<close> reads as \<^verbatim>\<open>hello\<close>; a frame whose
  declared length passes the end of the memory is read as a null-terminated string; a
  pointer at the end of the memory gives the empty string.\<close>

lemma read_string_examples:
  "read_string (''xMSGB'' @ [CHR 0x05, CHR 0x00, CHR 0x00, CHR 0x00] @ ''hello'') 1 = Inr ''hello''"
  "read_string (''xMSGB'' @ [CHR 0x06, CHR 0x00, CHR 0x00, CHR 0x00] @ ''hello'') 1
     = Inr (''MSGB'' @ [CHR 0x06])"
  "read_string ''abc'' 3 = Inr []"
  "read_string ''abc'' 0 = Inl (RuntimeError ''null pointer'')"
  by (simp_all add: read_string_unfold load_def le32_def)

text \<open>A guest that answers with a null-terminated \<open>reply\<close>: the host reads \<open>reply\<close> back.\<close>

lemma read_string_guest_says:
  assumes "CHR 0x00 \<notin> set reply" and "take 4 reply \<noteq> ''MSGB''" and "length reply < 1000"
  shows "read_string (result_memory (guest_says reply)) 1 = Inr reply"
proof -
  let ?data = "CHR 0x00 # reply @ [CHR 0x00]"
  have "takeWhile (\<lambda>b. b \<noteq> CHR 0x00) (reply @ [CHR 0x00]) = reply"
    using assms(1) by (induction reply) auto
  then have tw: "takeWhile (\<lambda>b. b \<noteq> CHR 0x00) (drop 1 ?data) = reply"
    by simp
  have sig: "\<not> (1 + 8 \<le> length ?data \<and> take 4 (drop 1 ?data) = ''MSGB'')"
    using assms(2) by (cases "4 \<le> length reply") auto
  have pos: "0 < sint (1 :: 32 word)" by simp
  have size: "length ?data \<le> 2 ^ 32" using assms(3) by simp
  have p: "nat (sint (1 :: 32 word)) = 1" by simp
  have sig3: "\<not> (1 + 8 \<le> length ?data \<and> take 4 (drop 1 ?data) = ''MSGB'' \<and>
      1 + 8 + unat (le32 (take 4 (drop (1 + 4) ?data))) \<le> length ?data)"
    using sig by blast
  have "read_string ?data 1 = Inr (takeWhile (\<lambda>b. b \<noteq> CHR 0x00) (drop 1 ?data))"
    by (simp only: read_string_in_range [OF pos size] p if_not_P [OF sig3])
  then show ?thesis using tw by (simp add: guest_says_def guest_returns_def)
qed

text \<open>
  C7. \<^verbatim>\<open>read_string\<close> is to fall back to the null-terminated read whenever the MSGB frame
  does not fit the memory, and never to leave the memory. At the pointer \<open>-8\<close> (the guest
  address \<^verbatim>\<open>0xFFFFFFF8\<close>) the bound check \<^verbatim>\<open>ptr_size + 8 <= data.size()\<close> wraps around to
  \<open>0 \<le> data.size()\<close>, and the four signature bytes are read outside a memory of one page.
\<close>

theorem read_string_wraps_at_minus_8:
  "read_string (replicate 65536 (CHR 0x00)) (- 8) = Inl MemoryFault"
  by (simp add: read_string_def load_def)

section \<open>info\<close>

text \<open>
  C5, as the code has it. Called by a thread that does not hold the mutex, \<^verbatim>\<open>info()\<close>
  returns the stub when the export is absent, when the call yields no \<^verbatim>\<open>i32\<close>, and when
  the pointer is null; for any other pointer it returns what \<^verbatim>\<open>read_string\<close> reads there,
  an empty string included.
\<close>

theorem info_result:
  assumes "\<not> mutex_held c"
  shows \<open>(\<not> info_func c \<longrightarrow> info c g = Inr ''{"supported_nips": []}'') \<and>
         (info_func c \<and> result_i32 (call_results g) = None \<longrightarrow>
            info c g = Inr ''{"supported_nips": []}'') \<and>
         (info_func c \<and> result_i32 (call_results g) = Some 0 \<longrightarrow>
            info c g = Inr ''{"supported_nips": []}'') \<and>
         (info_func c \<and> result_i32 (call_results g) = Some ptr \<and> ptr \<noteq> 0 \<longrightarrow>
            info c g = read_string (result_memory g) ptr)\<close>
  using assms by (simp add: info_def info_stub_def)

text \<open>The four cases at concrete guests: no export, a call without a result, a null
  pointer, and the text \<^verbatim>\<open>{"name":"x"}\<close> at address 1.\<close>

theorem info_result_witness:
  \<open>info (example_cassette\<lparr>info_func := False\<rparr>) (guest_returns [] []) = Inr ''{"supported_nips": []}'' \<and>
   info example_cassette (guest_returns [] []) = Inr ''{"supported_nips": []}'' \<and>
   info example_cassette (guest_returns [I32 0] []) = Inr ''{"supported_nips": []}'' \<and>
   info example_cassette (guest_says ''{"name":"x"}'') = Inr ''{"name":"x"}''\<close>
proof -
  have m: "\<not> mutex_held example_cassette" "\<not> mutex_held (example_cassette\<lparr>info_func := False\<rparr>)"
    "info_func example_cassette" "\<not> info_func (example_cassette\<lparr>info_func := False\<rparr>)"
    by (simp_all add: example_cassette_def)
  have r: "result_i32 (call_results (guest_returns [] [])) = None"
    "result_i32 (call_results (guest_returns [I32 0] [])) = Some 0"
    \<open>result_i32 (call_results (guest_says ''{"name":"x"}'')) = Some 1\<close>
    by (simp_all add: guest_says_def guest_returns_def result_i32_def)
  have t: \<open>read_string (result_memory (guest_says ''{"name":"x"}'')) 1 = Inr ''{"name":"x"}''\<close>
    by (rule read_string_guest_says) simp_all
  show ?thesis
    using info_result [OF m(2), of "guest_returns [] []" 0]
      info_result [OF m(1), of "guest_returns [] []" 0]
      info_result [OF m(1), of "guest_returns [I32 0] []" 0]
      info_result [OF m(1), of \<open>guest_says ''{"name":"x"}''\<close> 1]
      m(3,4) r t
    by simp
qed

text \<open>
  C5 as stated fails: the export is present and returns the address of an empty string
  (a zero byte at address 1); \<^verbatim>\<open>info()\<close> returns the empty string, not the stub.
\<close>

theorem info_empty_string_counterexample:
  "read_string (result_memory (guest_says [])) 1 = Inr [] \<and>
   info example_cassette (guest_says []) = Inr [] \<and>
   info example_cassette (guest_says []) \<noteq> Inr info_stub"
  by (simp add: info_def example_cassette_def guest_says_def guest_returns_def result_i32_def
      info_stub_def read_string_unfold)

section \<open>The notices of send\<close>

text \<open>
  C6. Once the message is written (so that the guest's \<^verbatim>\<open>send\<close> export is called), a null
  result pointer makes \<^verbatim>\<open>send\<close> return the one string
  \<^verbatim>\<open>["NOTICE", "send() returned null pointer"]\<close>, and a call without an \<^verbatim>\<open>i32\<close> result the
  string \<^verbatim>\<open>["NOTICE", "send() failed"]\<close>; both are returned, not raised.
\<close>

theorem send_notices:
  assumes "\<not> mutex_held c" and "write_string g message = Inr msg_ptr"
  shows \<open>(result_i32 (call_results g) = Some 0 \<longrightarrow>
            fst (send parse c message g) = Inr ''["NOTICE", "send() returned null pointer"]'') \<and>
         (result_i32 (call_results g) = None \<longrightarrow>
            fst (send parse c message g) = Inr ''["NOTICE", "send() failed"]'')\<close>
  using assms by (simp add: send_def Let_def notice_null_def notice_failed_def)

text \<open>A guest whose \<^verbatim>\<open>send\<close> returns 0, and one whose \<^verbatim>\<open>send\<close> returns nothing, asked
  \<^verbatim>\<open>["REQ","s1",{}]\<close>.\<close>

theorem send_notices_witness:
  \<open>fst (send json_parse example_cassette ''["REQ","s1",{}]'' (guest_returns [I32 0] []))
     = Inr ''["NOTICE", "send() returned null pointer"]'' \<and>
   fst (send json_parse example_cassette ''["REQ","s1",{}]'' (guest_returns [] []))
     = Inr ''["NOTICE", "send() failed"]''\<close>
proof -
  have m: "\<not> mutex_held example_cassette"
    by (simp add: example_cassette_def)
  have w: \<open>write_string (guest_returns rs []) ''["REQ","s1",{}]'' = Inr 8\<close> for rs
    by (simp add: write_string_def guest_returns_def result_i32_def)
  have r: "result_i32 (call_results (guest_returns [I32 0] [])) = Some 0"
    "result_i32 (call_results (guest_returns [] [])) = None"
    by (simp_all add: guest_returns_def result_i32_def)
  show ?thesis
    using send_notices [OF m w, of "[I32 0]" json_parse] send_notices [OF m w, of "[]" json_parse] r
    by simp
qed

section \<open>Message processing and the event tracker\<close>

lemma json_at_EVENT_is_array: "json_at parsed 0 = JString t \<Longrightarrow> is_array parsed"
  by (cases parsed) (simp_all add: json_at_def is_array_def)

lemma is_duplicate_event_eq:
  "is_duplicate_event parsed ids =
     (case event_id parsed of None \<Rightarrow> (False, ids) | Some i \<Rightarrow> (i \<in> ids, insert i ids))"
proof (cases "json_at parsed 0 = JString ''EVENT'' \<and> 3 \<le> json_size parsed \<and> is_object (json_at parsed 2) \<and> contains (json_at parsed 2) ''id''")
  case True
  then have a: "is_array parsed" by (auto dest: json_at_EVENT_is_array)
  show ?thesis using True a
    by (cases "json_get (json_at parsed 2) ''id''")
       (simp_all add: is_duplicate_event_def event_id_def Let_def get_string_def add_and_check_def)
next
  case False
  then show ?thesis
    by (auto simp: is_duplicate_event_def event_id_def Let_def)
qed

lemma send_prepare_eq:
  "send_prepare parse message ids = (if is_req parse message then {} else ids)"
  by (auto simp: send_prepare_def is_req_def reset_def get_string_def
      split: option.splits json.splits)

text \<open>One line: it is pushed when it has the outer shape of a message, unless it is an
  EVENT whose id the tracker holds; an EVENT with an id records the id.\<close>

lemma process_line_eq:
  "process_line parse m ids =
     (if accepted_line parse m
      then (case event_id_of parse m of
              None \<Rightarrow> (True, ids)
            | Some i \<Rightarrow> (i \<notin> ids, insert i ids))
      else (False, ids))"
proof (cases "parse m")
  case None
  then show ?thesis
    by (simp add: process_line_def accepted_line_def message_tag_def known_tag_def)
next
  case (Some parsed)
  note p = this
  have eo: "event_id_of parse m = event_id parsed"
    using p by (simp add: event_id_of_def)
  show ?thesis
  proof (cases "m = [] \<or> \<not> is_array parsed \<or> json_size parsed < 2")
    case True
    then have "\<not> accepted_line parse m"
      using p by (auto simp: accepted_line_def message_tag_def message_elements_def known_tag_def)
    then show ?thesis using True p by (auto simp: process_line_def)
  next
    case False
    then have arr: "is_array parsed" and sz: "2 \<le> json_size parsed" and ne: "m \<noteq> []" by auto
    have me: "message_elements parse m = json_size parsed"
      using p arr by (simp add: message_elements_def)
    have mt: "message_tag parse m = get_string (json_at parsed 0)"
      using p arr by (simp add: message_tag_def)
    show ?thesis
    proof (cases "get_string (json_at parsed 0)")
      case None
      then have "\<not> accepted_line parse m" by (simp add: accepted_line_def mt known_tag_def)
      then show ?thesis using p False None by (simp add: process_line_def)
    next
      case (Some msg_type)
      note tag = this
      have at0: "json_at parsed 0 = JString msg_type"
        using tag by (cases "json_at parsed 0") (simp_all add: get_string_def)
      show ?thesis
      proof (cases "msg_type \<noteq> ''NOTICE'' \<and> msg_type \<noteq> ''EVENT'' \<and> msg_type \<noteq> ''EOSE''")
        case True
        then have "\<not> accepted_line parse m"
          by (auto simp: accepted_line_def mt tag known_tag_def)
        then show ?thesis using p False tag True by (simp add: process_line_def)
      next
        case False
        then have acc: "accepted_line parse m"
          using ne sz by (auto simp: accepted_line_def mt tag known_tag_def me)
        show ?thesis
        proof (cases "msg_type = ''EVENT'' \<and> 3 \<le> json_size parsed")
          case True
          show ?thesis
            using p arr sz ne tag True acc eo
            by (auto simp: process_line_def is_duplicate_event_eq split: option.splits)
        next
          case F: False
          then have "event_id parsed = None"
            using at0 by (auto simp: event_id_def)
          then show ?thesis
            using p arr sz ne tag False F acc eo
            by (auto simp: process_line_def)
        qed
      qed
    qed
  qed
qed

lemma process_line_cases:
  assumes "process_line parse m ids = (pushed, ids')"
  shows "if pushed
         then accepted_line parse m \<and>
              (case event_id_of parse m of
                 None \<Rightarrow> ids' = ids
               | Some i \<Rightarrow> i \<notin> ids \<and> ids' = insert i ids)
         else ids' = ids \<and> dropped_line parse ids m"
  using assms
  by (auto simp: process_line_eq dropped_line_def accepted_line_def duplicate_event_def
      insert_absorb split: if_splits option.splits)

lemma event_ids_of_append [simp]:
  "event_ids_of parse (xs @ ys) = event_ids_of parse xs @ event_ids_of parse ys"
  by (induction xs) (simp_all add: event_ids_of_def map_filter_simps split: option.splits)

lemma event_ids_of_Nil [simp]: "event_ids_of parse [] = []"
  by (simp add: event_ids_of_def map_filter_simps)

lemma event_ids_of_single:
  "event_ids_of parse [m] = (case event_id_of parse m of None \<Rightarrow> [] | Some i \<Rightarrow> [i])"
  by (simp add: event_ids_of_def map_filter_simps split: option.splits)

text \<open>The loop over the lines: the messages it adds are lines with the shape of a message;
  their event ids are distinct and new to the tracker, and the tracker gains exactly
  these.\<close>

lemma process_lines_invariant:
  assumes "process_lines parse ls filtered ids = (out, ids')"
  shows "\<exists>new. out = filtered @ new \<and> set new \<subseteq> set ls \<and>
           (\<forall>m \<in> set new. accepted_line parse m) \<and>
           distinct (event_ids_of parse new) \<and>
           set (event_ids_of parse new) \<inter> ids = {} \<and>
           ids' = ids \<union> set (event_ids_of parse new)"
  using assms
proof (induction ls arbitrary: filtered ids)
  case Nil
  then show ?case by simp
next
  case (Cons m rest)
  obtain pushed ids1 where pl: "process_line parse m ids = (pushed, ids1)"
    by (cases "process_line parse m ids")
  note pc = process_line_cases [OF pl]
  from Cons.prems pl
  have rec: "process_lines parse rest (if pushed then filtered @ [m] else filtered) ids1 = (out, ids')"
    by simp
  from Cons.IH [OF rec] obtain new where
    n1: "out = (if pushed then filtered @ [m] else filtered) @ new" and
    n2: "set new \<subseteq> set rest" and
    n3: "\<forall>x \<in> set new. accepted_line parse x" and
    n4: "distinct (event_ids_of parse new)" and
    n5: "set (event_ids_of parse new) \<inter> ids1 = {}" and
    n6: "ids' = ids1 \<union> set (event_ids_of parse new)"
    by blast
  show ?case
  proof (cases pushed)
    case False
    with pc have "ids1 = ids" by simp
    with False n1 n2 n3 n4 n5 n6 show ?thesis
      by (intro exI [of _ new]) auto
  next
    case True
    with pc have k: "accepted_line parse m"
      and e: "case event_id_of parse m of None \<Rightarrow> ids1 = ids | Some i \<Rightarrow> i \<notin> ids \<and> ids1 = insert i ids"
      by simp_all
    show ?thesis
    proof (cases "event_id_of parse m")
      case None
      with e have "ids1 = ids" by simp
      with True None k n1 n2 n3 n4 n5 n6 show ?thesis
        by (intro exI [of _ "m # new"]) (auto simp: event_ids_of_def map_filter_simps)
    next
      case (Some i)
      with e have i: "i \<notin> ids" "ids1 = insert i ids" by simp_all
      have ev: "event_ids_of parse (m # new) = i # event_ids_of parse new"
        using Some by (simp add: event_ids_of_def map_filter_simps)
      from n5 i have ni: "i \<notin> set (event_ids_of parse new)" by auto
      show ?thesis
        using True k n1 n2 n3 n4 n5 n6 i ni ev
        by (intro exI [of _ "m # new"]) auto
    qed
  qed
qed

lemma process_messages_invariant:
  assumes "process_messages parse result ids = (out, ids')"
  shows "distinct (event_ids_of parse out) \<and> set (event_ids_of parse out) \<inter> ids = {} \<and>
         ids' = ids \<union> set (event_ids_of parse out)"
proof (cases "CHR 0x0A \<in> set result")
  case True
  with assms have "process_lines parse (getlines [] result) [] ids = (out, ids')"
    by (simp add: process_messages_def)
  from process_lines_invariant [OF this] show ?thesis by auto
next
  case False
  show ?thesis
  proof (cases "parse result")
    case None
    then have "event_id_of parse result = None" by (simp add: event_id_of_def)
    with assms False None show ?thesis
      by (auto simp: process_messages_def event_ids_of_single)
  next
    case (Some parsed)
    then have eo: "event_id_of parse result = event_id parsed" by (simp add: event_id_of_def)
    show ?thesis
    proof (cases "is_array parsed \<and> json_at parsed 0 = JString ''EVENT'' \<and> 3 \<le> json_size parsed")
      case True
      with assms False Some eo show ?thesis
        by (auto simp: process_messages_def is_duplicate_event_eq event_ids_of_single insert_absorb
            split: option.splits if_splits)
    next
      case False
      then have "event_id parsed = None" by (auto simp: event_id_def)
      with assms \<open>CHR 0x0A \<notin> set result\<close> Some eo False show ?thesis
        by (auto simp: process_messages_def event_ids_of_single)
    qed
  qed
qed

lemma dropped_line_not_pushed:
  assumes "dropped_line parse ids m"
  shows "process_line parse m ids = (False, ids)"
proof (cases "accepted_line parse m")
  case False
  then show ?thesis by (simp add: process_line_eq)
next
  case True
  then have "parse m \<noteq> None"
    by (auto simp: accepted_line_def known_tag_def message_tag_def split: option.splits)
  with assms True have "duplicate_event parse ids m"
    by (auto simp: dropped_line_def accepted_line_def)
  then show ?thesis
    using True by (auto simp: process_line_eq duplicate_event_def insert_absorb split: option.splits)
qed

lemma process_lines_keeps:
  "\<exists>new. fst (process_lines parse ls filtered ids) = filtered @ new"
proof -
  obtain out ids' where "process_lines parse ls filtered ids = (out, ids')"
    by (cases "process_lines parse ls filtered ids")
  from process_lines_invariant [OF this] this show ?thesis by auto
qed

text \<open>The loop returns nothing exactly when every line is dropped.\<close>

lemma process_lines_nothing_pushed:
  assumes "fst (process_lines parse ls filtered ids) = filtered"
  shows "list_all (dropped_line parse ids) ls"
  using assms
proof (induction ls arbitrary: filtered ids)
  case Nil
  then show ?case by simp
next
  case (Cons m rest)
  obtain pushed ids1 where pl: "process_line parse m ids = (pushed, ids1)"
    by (cases "process_line parse m ids")
  note pc = process_line_cases [OF pl]
  have np: "\<not> pushed"
  proof
    assume pushed
    with Cons.prems pl have "fst (process_lines parse rest (filtered @ [m]) ids1) = filtered"
      by simp
    moreover obtain new where "fst (process_lines parse rest (filtered @ [m]) ids1) = (filtered @ [m]) @ new"
      using process_lines_keeps by blast
    ultimately show False by simp
  qed
  with pc have i: "ids1 = ids" and d: "dropped_line parse ids m" by simp_all
  from Cons.prems pl np i have "fst (process_lines parse rest filtered ids) = filtered" by simp
  from Cons.IH [OF this] d show ?case by simp
qed

text \<open>A line with the shape of a message and without an event id is returned.\<close>

lemma process_lines_returns:
  assumes "m \<in> set ls" and "accepted_line parse m" and "event_id_of parse m = None"
  shows "m \<in> set (fst (process_lines parse ls filtered ids))"
  using assms(1)
proof (induction ls arbitrary: filtered ids)
  case Nil
  then show ?case by simp
next
  case (Cons x rest)
  obtain pushed ids1 where pl: "process_line parse x ids = (pushed, ids1)"
    by (cases "process_line parse x ids")
  show ?case
  proof (cases "m = x")
    case True
    with pl assms(2,3) have "pushed" by (simp add: process_line_eq)
    moreover obtain new where "fst (process_lines parse rest (filtered @ [x]) ids1) = (filtered @ [x]) @ new"
      using process_lines_keeps by blast
    ultimately show ?thesis using pl True by simp
  next
    case False
    with Cons.prems have "m \<in> set rest" by simp
    from Cons.IH [OF this] show ?thesis using pl by simp
  qed
qed

lemma process_lines_all_dropped:
  "list_all (dropped_line parse ids) ls \<Longrightarrow> process_lines parse ls filtered ids = (filtered, ids)"
  by (induction ls) (simp_all add: dropped_line_not_pushed)

lemma process_messages_all_dropped:
  assumes "every_candidate_dropped parse ids result"
  shows "process_messages parse result ids = ([], ids)"
proof (cases "CHR 0x0A \<in> set result")
  case True
  with assms show ?thesis
    by (simp add: every_candidate_dropped_def process_messages_def process_lines_all_dropped)
next
  case False
  with assms have d: "duplicate_event parse ids result"
    by (simp add: every_candidate_dropped_def)
  then obtain parsed i where p: "parse result = Some parsed" and e: "event_id parsed = Some i"
    and i: "i \<in> ids"
    by (auto simp: duplicate_event_def event_id_of_def split: option.splits)
  from e have c: "is_array parsed \<and> json_at parsed 0 = JString ''EVENT'' \<and> 3 \<le> json_size parsed"
    by (auto simp: event_id_def split: if_splits)
  show ?thesis
    using False p e i c
    by (simp add: process_messages_def is_duplicate_event_eq insert_absorb)
qed

lemma process_messages_single:
  assumes "CHR 0x0A \<notin> set result"
  shows "fst (process_messages parse result ids) = (if duplicate_event parse ids result then [] else [result])"
proof (cases "parse result")
  case None
  with assms show ?thesis
    by (simp add: process_messages_def duplicate_event_def event_id_of_def)
next
  case (Some parsed)
  show ?thesis
  proof (cases "is_array parsed \<and> json_at parsed 0 = JString ''EVENT'' \<and> 3 \<le> json_size parsed")
    case True
    with assms Some show ?thesis
      by (auto simp: process_messages_def duplicate_event_def event_id_of_def is_duplicate_event_eq
          split: option.splits)
  next
    case False
    then have "event_id parsed = None" by (auto simp: event_id_def)
    with assms Some False show ?thesis
      by (auto simp: process_messages_def duplicate_event_def event_id_of_def)
  qed
qed

lemma process_messages_lines:
  assumes "CHR 0x0A \<in> set result" and "m \<in> set (fst (process_messages parse result ids))"
  shows "m \<in> set (getlines [] result) \<and> accepted_line parse m"
proof -
  obtain out ids' where pl: "process_lines parse (getlines [] result) [] ids = (out, ids')"
    by (cases "process_lines parse (getlines [] result) [] ids")
  with assms have "m \<in> set out" by (simp add: process_messages_def)
  with process_lines_invariant [OF pl] show ?thesis by auto
qed

lemma process_messages_returns:
  assumes "CHR 0x0A \<in> set result" and "m \<in> set (getlines [] result)"
    and "accepted_line parse m" and "event_id_of parse m = None"
  shows "m \<in> set (fst (process_messages parse result ids))"
  using assms by (simp add: process_messages_def process_lines_returns)

lemma process_messages_empty_iff:
  "fst (process_messages parse result ids) = [] \<longleftrightarrow> every_candidate_dropped parse ids result"
proof
  assume "every_candidate_dropped parse ids result"
  then show "fst (process_messages parse result ids) = []"
    by (simp add: process_messages_all_dropped)
next
  assume e: "fst (process_messages parse result ids) = []"
  show "every_candidate_dropped parse ids result"
  proof (cases "CHR 0x0A \<in> set result")
    case True
    with e have "fst (process_lines parse (getlines [] result) [] ids) = []"
      by (simp add: process_messages_def)
    from process_lines_nothing_pushed [OF this] True show ?thesis
      by (simp add: every_candidate_dropped_def)
  next
    case False
    with e show ?thesis
      by (simp add: process_messages_single every_candidate_dropped_def split: if_splits)
  qed
qed

text \<open>What \<^verbatim>\<open>send\<close> does once the guest has answered with a string.\<close>

lemma send_answered:
  assumes "\<not> mutex_held c" and "write_string g message = Inr msg_ptr"
    and "result_i32 (call_results g) = Some result_ptr" and "result_ptr \<noteq> 0"
    and "read_string (result_memory g) result_ptr = Inr result_str"
  shows "send parse c message g =
     (case process_messages parse result_str (send_prepare parse message (event_ids c)) of
        (filtered, ids') \<Rightarrow> (Inr (join_filtered filtered), c\<lparr>event_ids := ids'\<rparr>))"
  using assms by (simp add: send_def Let_def split: prod.splits)

lemma write_string_guest_returns:
  assumes "length message \<le> 248"
  shows "write_string (guest_returns rs mem) message = Inr 8"
  using assms by (simp add: write_string_def guest_returns_def result_i32_def)

lemma send_guest_says:
  assumes "\<not> mutex_held c" and "length message \<le> 248"
    and "CHR 0x00 \<notin> set reply" and "take 4 reply \<noteq> ''MSGB''" and "length reply < 1000"
  shows "send parse c message (guest_says reply) =
     (case process_messages parse reply (send_prepare parse message (event_ids c)) of
        (filtered, ids') \<Rightarrow> (Inr (join_filtered filtered), c\<lparr>event_ids := ids'\<rparr>))"
proof -
  have w: "write_string (guest_says reply) message = Inr 8"
    using assms(2) by (simp add: guest_says_def write_string_guest_returns)
  have r: "result_i32 (call_results (guest_says reply)) = Some 1"
    by (simp add: guest_says_def guest_returns_def result_i32_def)
  have z: "(1 :: 32 word) \<noteq> 0" by simp
  show ?thesis
    by (rule send_answered [OF assms(1) w r z read_string_guest_says [OF assms(3,4,5)]])
qed

lemma send_messages_guest_says:
  assumes "\<not> mutex_held c" and "length message \<le> 248"
    and "CHR 0x00 \<notin> set reply" and "take 4 reply \<noteq> ''MSGB''" and "length reply < 1000"
  shows "send_messages parse c message (guest_says reply) =
     (case process_messages parse reply (send_prepare parse message (event_ids c)) of
        (filtered, ids') \<Rightarrow> (Inr filtered, c\<lparr>event_ids := ids'\<rparr>))"
proof -
  have w: "write_string (guest_says reply) message = Inr 8"
    using assms(2) by (simp add: guest_says_def write_string_guest_returns)
  have r: "result_i32 (call_results (guest_says reply)) = Some 1"
    by (simp add: guest_says_def guest_returns_def result_i32_def)
  show ?thesis
    using assms(1) w r read_string_guest_says [OF assms(3,4,5)]
    by (simp add: send_messages_def Let_def split: prod.splits)
qed

text \<open>\<^verbatim>\<open>send\<close> returns the joined text of the messages of \<open>send_messages\<close>.\<close>

lemma send_eq_join:
  "send parse c message g =
     (case send_messages parse c message g of
        (Inl e, c') \<Rightarrow> (Inl e, c')
      | (Inr ms, c') \<Rightarrow> (Inr (join_filtered ms), c'))"
  by (simp add: send_def send_messages_def Let_def join_filtered_def
      split: sum.splits option.splits prod.splits)

text \<open>One call: the event ids of the messages it returns are distinct and new to the
  tracker as it is after the check for a REQ, and the tracker gains exactly these.\<close>

lemma send_messages_invariant:
  assumes n: "event_id_of parse notice_failed = None" "event_id_of parse notice_null = None"
    and s: "send_messages parse c message g = (r, c')"
  defines "out \<equiv> (case r of Inl e \<Rightarrow> [] | Inr ms \<Rightarrow> ms)"
  defines "t \<equiv> (if mutex_held c then event_ids c else send_prepare parse message (event_ids c))"
  shows "distinct (event_ids_of parse out) \<and> set (event_ids_of parse out) \<inter> t = {} \<and>
         event_ids c' = t \<union> set (event_ids_of parse out) \<and> mutex_held c' = mutex_held c"
proof (cases "mutex_held c")
  case True
  with s show ?thesis by (auto simp: send_messages_def out_def t_def)
next
  case False
  note free = this
  show ?thesis
  proof (cases "write_string g message")
    case (Inl e)
    with s free show ?thesis by (auto simp: send_messages_def out_def t_def Let_def)
  next
    case (Inr msg_ptr)
    note w = this
    show ?thesis
    proof (cases "result_i32 (call_results g)")
      case None
      with s free w n show ?thesis
        by (auto simp: send_messages_def out_def t_def Let_def event_ids_of_single)
    next
      case (Some result_ptr)
      note rp = this
      show ?thesis
      proof (cases "result_ptr = 0")
        case True
        with s free w rp n show ?thesis
          by (auto simp: send_messages_def out_def t_def Let_def event_ids_of_single)
      next
        case False
        note nz = this
        show ?thesis
        proof (cases "read_string (result_memory g) result_ptr")
          case (Inl e)
          with s free w rp nz show ?thesis
            by (auto simp: send_messages_def out_def t_def Let_def)
        next
          case (Inr result_str)
          obtain filtered ids' where
            pm: "process_messages parse result_str (send_prepare parse message (event_ids c)) = (filtered, ids')"
            by (cases "process_messages parse result_str (send_prepare parse message (event_ids c))")
          from s free w rp nz Inr pm
          have r: "r = Inr filtered" and c': "c' = c\<lparr>event_ids := ids'\<rparr>"
            by (auto simp: send_messages_def Let_def)
          from process_messages_invariant [OF pm] r c' free show ?thesis
            by (simp add: out_def t_def)
        qed
      qed
    qed
  qed
qed

lemma send_all_invariant:
  assumes n: "event_id_of parse notice_failed = None" "event_id_of parse notice_null = None"
    and "send_all parse c calls = (out, c')"
    and "\<forall>(m, g) \<in> set calls. \<not> is_req parse m"
  shows "distinct (event_ids_of parse out) \<and> set (event_ids_of parse out) \<inter> event_ids c = {} \<and>
         event_ids c' = event_ids c \<union> set (event_ids_of parse out)"
  using assms(3,4)
proof (induction calls arbitrary: c out c')
  case Nil
  then show ?case by simp
next
  case (Cons call calls)
  obtain m g where call: "call = (m, g)" by (cases call)
  obtain r c1 where s: "send_messages parse c m g = (r, c1)"
    by (cases "send_messages parse c m g")
  obtain out2 c2 where sa: "send_all parse c1 calls = (out2, c2)"
    by (cases "send_all parse c1 calls")
  let ?o1 = "case r of Inl e \<Rightarrow> [] | Inr ms \<Rightarrow> ms"
  from Cons.prems(1) call s sa have out: "out = ?o1 @ out2" and c': "c' = c2" by simp_all
  from Cons.prems(2) call have nr: "\<not> is_req parse m" and rest: "\<forall>(m, g) \<in> set calls. \<not> is_req parse m"
    by auto
  from nr have t: "(if mutex_held c then event_ids c else send_prepare parse m (event_ids c)) = event_ids c"
    by (simp add: send_prepare_eq)
  from send_messages_invariant [OF n s] t
  have a: "distinct (event_ids_of parse ?o1)" "set (event_ids_of parse ?o1) \<inter> event_ids c = {}"
    "event_ids c1 = event_ids c \<union> set (event_ids_of parse ?o1)"
    by simp_all
  from Cons.IH [OF sa rest]
  have b: "distinct (event_ids_of parse out2)" "set (event_ids_of parse out2) \<inter> event_ids c1 = {}"
    "event_ids c2 = event_ids c1 \<union> set (event_ids_of parse out2)"
    by simp_all
  show ?case using a b out c' by auto
qed

section \<open>Tag filtering, deduplication and the reset on REQ\<close>

text \<open>
  C1, as the code has it. In a reply with a newline every returned message is one of the
  reply's non-empty lines, parses to an array of at least two elements and carries one of
  the tags EVENT, NOTICE, EOSE: a line with any other tag, with no string tag, with fewer
  than two elements or that fails to parse is absent. Every line of that shape that
  carries no event id is returned. A reply without a newline is returned verbatim,
  whatever it parses to, unless it is an EVENT whose id the tracker already holds.
\<close>

theorem process_messages_tags:
  "(CHR 0x0A \<in> set result \<longrightarrow>
      (\<forall>m \<in> set (fst (process_messages parse result ids)).
         m \<in> set (getlines [] result) \<and> m \<noteq> [] \<and> known_tag (message_tag parse m) \<and>
         2 \<le> message_elements parse m) \<and>
      (\<forall>m \<in> set (getlines [] result).
         m \<noteq> [] \<and> known_tag (message_tag parse m) \<and> 2 \<le> message_elements parse m \<and>
         event_id_of parse m = None \<longrightarrow>
         m \<in> set (fst (process_messages parse result ids)))) \<and>
   (CHR 0x0A \<notin> set result \<longrightarrow>
      fst (process_messages parse result ids) =
        (if duplicate_event parse ids result then [] else [result]))"
  using process_messages_lines [of result _ parse ids]
    process_messages_returns [of result _ parse ids]
    process_messages_single [of result parse ids]
  unfolding accepted_line_def by blast

text \<open>
  The reply \<^verbatim>\<open>FOO\n["NOTICE","ok"]\n["BOGUS","x"]\<close> keeps messages of that shape only, and
  keeps the notice; the single reply \<^verbatim>\<open>["BOGUS","x"]\<close> is returned as it is.
\<close>

theorem process_messages_tags_witness:
  "list_all (\<lambda>m. m \<noteq> [] \<and> known_tag (message_tag json_parse m) \<and> 2 \<le> message_elements json_parse m)
     (fst (process_messages json_parse foo_notice_bogus {})) \<and>
   notice_ok \<in> set (fst (process_messages json_parse foo_notice_bogus {})) \<and>
   fst (process_messages json_parse bogus_x {}) = [bogus_x]"
proof -
  have n1: "CHR 0x0A \<in> set foo_notice_bogus" by simp
  have n2: "CHR 0x0A \<notin> set bogus_x" by simp
  have d: "\<not> duplicate_event json_parse {} bogus_x" by code_simp
  have l: "notice_ok \<in> set (getlines [] foo_notice_bogus)" by simp
  have k: "known_tag (message_tag json_parse notice_ok)" "2 \<le> message_elements json_parse notice_ok"
    "event_id_of json_parse notice_ok = None"
    by code_simp+
  have ne: "notice_ok \<noteq> []" by simp
  note t = process_messages_tags [of foo_notice_bogus json_parse "{}"]
  from t n1 have a: "\<forall>m \<in> set (fst (process_messages json_parse foo_notice_bogus {})).
      m \<noteq> [] \<and> known_tag (message_tag json_parse m) \<and> 2 \<le> message_elements json_parse m"
    by blast
  from t n1 l k ne have b: "notice_ok \<in> set (fst (process_messages json_parse foo_notice_bogus {}))"
    by blast
  from process_messages_tags [of bogus_x json_parse "{}"] n2 d
  have c: "fst (process_messages json_parse bogus_x {}) = [bogus_x]" by simp
  from a b c show ?thesis by (simp add: list_all_iff)
qed

text \<open>
  The same three-line reply leaves the notice alone, and a line of one element is dropped
  whatever its tag.
\<close>

lemma tag_filter_example:
  "process_messages json_parse foo_notice_bogus {} = ([notice_ok], {})"
  \<open>process_messages json_parse ''["EOSE"]\<newline>["NOTICE","ok"]'' {} = ([notice_ok], {})\<close>
  by code_simp+

text \<open>
  C1 as stated fails: the single reply \<^verbatim>\<open>["BOGUS","x"]\<close> is a JSON array that parses, its
  tag is none of the three, and \<^verbatim>\<open>send\<close> returns it.
\<close>

theorem tag_filter_counterexample:
  "message_tag json_parse bogus_x = Some ''BOGUS'' \<and> \<not> known_tag (Some ''BOGUS'') \<and>
   process_messages json_parse bogus_x {} = ([bogus_x], {}) \<and>
   fst (send json_parse example_cassette req_s1 (guest_says bogus_x)) = Inr bogus_x"
proof -
  have t: "message_tag json_parse bogus_x = Some ''BOGUS''" by code_simp
  have k: "\<not> known_tag (Some ''BOGUS'')" by (simp add: known_tag_def)
  have p: "process_messages json_parse bogus_x {} = ([bogus_x], {})" by code_simp
  have q: "send_prepare json_parse req_s1 {} = {}" by (simp add: send_prepare_eq)
  have "send json_parse example_cassette req_s1 (guest_says bogus_x) =
      (case process_messages json_parse bogus_x
              (send_prepare json_parse req_s1 (event_ids example_cassette)) of
         (filtered, ids') \<Rightarrow> (Inr (join_filtered filtered), example_cassette\<lparr>event_ids := ids'\<rparr>))"
    by (rule send_guest_says) (simp_all add: example_cassette_def)
  also have "event_ids example_cassette = {}" by (simp add: example_cassette_def)
  finally have "fst (send json_parse example_cassette req_s1 (guest_says bogus_x)) = Inr bogus_x"
    by (simp add: q p join_filtered_def)
  with t k p show ?thesis by simp
qed

text \<open>
  C2. A first call of \<^verbatim>\<open>send\<close> (the REQ, which resets the tracker) is followed by any
  number of calls whose messages are no REQ. Whatever the guest answers, the messages
  returned over all these calls carry pairwise different event ids: no EVENT with the
  same string id is returned twice. The parser is any parser that finds no event id in
  the two notices the loader makes up itself.
\<close>

theorem dedup_within_req_window:
  assumes "event_id_of parse notice_failed = None" and "event_id_of parse notice_null = None"
    and "\<forall>(m, g) \<in> set calls. \<not> is_req parse m"
  shows "distinct (event_ids_of parse (fst (send_all parse c ((req, g0) # calls))))"
proof -
  obtain r c1 where s: "send_messages parse c req g0 = (r, c1)"
    by (cases "send_messages parse c req g0")
  obtain out2 c2 where sa: "send_all parse c1 calls = (out2, c2)"
    by (cases "send_all parse c1 calls")
  let ?o1 = "case r of Inl e \<Rightarrow> [] | Inr ms \<Rightarrow> ms"
  from send_messages_invariant [OF assms(1,2) s]
  have a: "distinct (event_ids_of parse ?o1)" "set (event_ids_of parse ?o1) \<subseteq> event_ids c1"
    by auto
  from send_all_invariant [OF assms(1,2) sa assms(3)]
  have b: "distinct (event_ids_of parse out2)" "set (event_ids_of parse out2) \<inter> event_ids c1 = {}"
    by simp_all
  have "fst (send_all parse c ((req, g0) # calls)) = ?o1 @ out2"
    using s sa by simp
  then show ?thesis using a b by auto
qed

text \<open>
  A REQ answered with the same event twice and an EOSE, then a CLOSE answered with that
  event again.
\<close>

theorem dedup_within_req_window_witness:
  "distinct (event_ids_of json_parse (fst (send_all json_parse example_cassette
     [(req_s1, guest_says event_event_eose),
      (close_s1, guest_says event_a)])))"
proof -
  have n: "event_id_of json_parse notice_failed = None" "event_id_of json_parse notice_null = None"
    by code_simp+
  have c: "\<not> is_req json_parse close_s1" by code_simp
  have "\<forall>(m, g) \<in> set [(close_s1, guest_says event_a)]. \<not> is_req json_parse m"
    using c by simp
  from dedup_within_req_window [OF n this] show ?thesis .
qed

text \<open>
  In that run the caller receives the event once and the EOSE.
\<close>

lemma dedup_example:
  "fst (send_all json_parse example_cassette
     [(req_s1, guest_says event_event_eose),
      (close_s1, guest_says event_a)]) = [event_a, eose_s1]"
proof -
  let ?r1 = event_event_eose
  have p1: "process_messages json_parse ?r1 (send_prepare json_parse req_s1 {}) = ([event_a, eose_s1], {''a''})"
    by code_simp
  have p2: "process_messages json_parse event_a (send_prepare json_parse close_s1 {''a''}) = ([], {''a''})"
    by code_simp
  have s1: "send_messages json_parse example_cassette req_s1 (guest_says ?r1) = (Inr [event_a, eose_s1], seen_a)"
    using send_messages_guest_says [of example_cassette req_s1 ?r1 json_parse] p1
    by (simp add: example_cassette_def)
  have s2: "send_messages json_parse seen_a close_s1 (guest_says event_a) = (Inr [], seen_a)"
    using send_messages_guest_says [of seen_a close_s1 event_a json_parse] p2
    by (simp add: example_cassette_def)
  show ?thesis using s1 s2 by simp
qed

text \<open>
  C3, as the code has it. When the message parses to an array of at least two elements
  whose first is the string REQ, the tracker is empty after the check that precedes the
  call of the guest, and \<^verbatim>\<open>send\<close> behaves as on a cassette that has recorded nothing: an
  id recorded earlier is returned again. A message that fails to parse leaves the tracker
  as it is.
\<close>

theorem req_resets_tracker:
  assumes "\<not> mutex_held c"
  shows "(parse message = Some (JArray (JString ''REQ'' # x # xs)) \<longrightarrow>
            send_prepare parse message (event_ids c) = {} \<and>
            send parse c message g = send parse (c\<lparr>event_ids := {}\<rparr>) message g) \<and>
         (parse message = None \<longrightarrow> send_prepare parse message (event_ids c) = event_ids c)"
proof -
  have "is_req parse message" if "parse message = Some (JArray (JString ''REQ'' # x # xs))"
    using that by (simp add: is_req_def is_array_def json_size_def json_at_def)
  moreover have "\<not> is_req parse message" if "parse message = None"
    using that by (simp add: is_req_def)
  ultimately show ?thesis
    using assms by (auto simp: send_prepare_eq send_def Let_def)
qed

text \<open>
  The tracker holds \<open>a\<close>; a REQ answered with the event \<open>a\<close> returns it; the message
  \<^verbatim>\<open>REQ\<close>, which is no JSON, leaves \<open>a\<close> in the tracker.
\<close>

theorem req_resets_tracker_witness:
  "fst (send json_parse seen_a req_s1 (guest_says event_a)) = Inr event_a \<and>
   send_prepare json_parse ''REQ'' (event_ids seen_a) = {''a''}"
proof -
  have m: "\<not> mutex_held seen_a" by (simp add: example_cassette_def)
  have p: "json_parse req_s1 = Some (JArray (JString ''REQ'' # JString ''s1'' # [JObject []]))"
    by code_simp
  have f: "json_parse ''REQ'' = None" by code_simp
  have e: "seen_a\<lparr>event_ids := {}\<rparr> = example_cassette" by (simp add: example_cassette_def)
  have pm: "process_messages json_parse event_a (send_prepare json_parse req_s1 {}) = ([event_a], {''a''})"
    by code_simp
  have s: "fst (send json_parse example_cassette req_s1 (guest_says event_a)) = Inr event_a"
    by (subst send_guest_says) (simp_all add: example_cassette_def pm join_filtered_def)
  have i: "event_ids seen_a = {''a''}" by simp
  show ?thesis
    using req_resets_tracker [OF m, of json_parse req_s1 "JString ''s1''" "[JObject []]" "guest_says event_a"]
      req_resets_tracker [OF m, of json_parse "''REQ''"] p f e s i
    by simp
qed

text \<open>
  C3 as stated fails: \<^verbatim>\<open>["REQ"]\<close> parses to an array whose first element is the string
  REQ, but it has one element only; the tracker keeps \<open>a\<close>, and the event \<open>a\<close> the guest
  answers with is suppressed.
\<close>

theorem req_single_element_counterexample:
  \<open>json_parse ''["REQ"]'' = Some (JArray [JString ''REQ'']) \<and>
   send_prepare json_parse ''["REQ"]'' {''a''} = {''a''} \<and>
   send json_parse seen_a ''["REQ"]'' (guest_says event_a) = (Inr [], seen_a)\<close>
proof -
  have p: \<open>json_parse ''["REQ"]'' = Some (JArray [JString ''REQ''])\<close> by code_simp
  have q: \<open>send_prepare json_parse ''["REQ"]'' {''a''} = {''a''}\<close> by code_simp
  have pm: "process_messages json_parse event_a {''a''} = ([], {''a''})" by code_simp
  have s: \<open>send json_parse seen_a ''["REQ"]'' (guest_says event_a) = (Inr [], seen_a)\<close>
    by (subst send_guest_says) (simp_all add: example_cassette_def q pm join_filtered_def)
  from p q s show ?thesis by simp
qed

text \<open>
  C10, as the code has it. The guest has answered with a string. If every candidate of a
  reply with newlines is dropped (each line is empty, fails to parse, carries no known
  tag, has fewer than two elements or is an EVENT already recorded), or the reply has no
  newline and is an EVENT already recorded, \<^verbatim>\<open>send\<close> returns the empty string: no notice,
  no raise. These are exactly the replies of which nothing is kept. A reply without a
  newline that is no recorded EVENT is returned verbatim, also when it fails to parse or
  carries an unknown tag.
\<close>

theorem send_empty_when_all_dropped:
  assumes "\<not> mutex_held c" and "write_string g message = Inr msg_ptr"
    and "result_i32 (call_results g) = Some result_ptr" and "result_ptr \<noteq> 0"
    and "read_string (result_memory g) result_ptr = Inr result_str"
  shows "(every_candidate_dropped parse (send_prepare parse message (event_ids c)) result_str \<longrightarrow>
            fst (send parse c message g) = Inr []) \<and>
         (CHR 0x0A \<notin> set result_str \<and>
          \<not> duplicate_event parse (send_prepare parse message (event_ids c)) result_str \<longrightarrow>
            fst (send parse c message g) = Inr result_str) \<and>
         (every_candidate_dropped parse (send_prepare parse message (event_ids c)) result_str \<longleftrightarrow>
            fst (process_messages parse result_str (send_prepare parse message (event_ids c))) = [])"
proof -
  let ?ids = "send_prepare parse message (event_ids c)"
  have s: "fst (send parse c message g) = Inr (join_filtered (fst (process_messages parse result_str ?ids)))"
    by (simp add: send_answered [OF assms(1-5)] split: prod.splits)
  show ?thesis
    by (auto simp: s process_messages_all_dropped process_messages_single join_filtered_def
        process_messages_empty_iff)
qed

text \<open>
  The tracker holds \<open>a\<close>. The guest answers a CLOSE with the event \<open>a\<close>, the line \<^verbatim>\<open>FOO\<close>
  and a message with the tag BOGUS, or with two one-element messages: \<^verbatim>\<open>send\<close> returns
  the empty string. It answers with the single reply \<^verbatim>\<open>not json\<close>: \<^verbatim>\<open>send\<close> returns it.
\<close>

theorem send_empty_when_all_dropped_witness:
  \<open>fst (send json_parse seen_a close_s1 (guest_says event_foo_bogus)) = Inr [] \<and>
   fst (send json_parse seen_a close_s1 (guest_says ''["EOSE"]\<newline>["NOTICE"]'')) = Inr [] \<and>
   fst (send json_parse seen_a close_s1 (guest_says ''not json'')) = Inr ''not json''\<close>
proof -
  have m: "\<not> mutex_held seen_a" by (simp add: example_cassette_def)
  have w: "write_string (guest_says reply) close_s1 = Inr 8" for reply
    by (simp add: guest_says_def write_string_guest_returns)
  have r: "result_i32 (call_results (guest_says reply)) = Some 1" for reply
    by (simp add: guest_says_def guest_returns_def result_i32_def)
  have z: "(1 :: 32 word) \<noteq> 0" by simp
  have s1: "read_string (result_memory (guest_says event_foo_bogus)) 1 = Inr event_foo_bogus"
    by (rule read_string_guest_says) simp_all
  have s2: \<open>read_string (result_memory (guest_says ''["EOSE"]\<newline>["NOTICE"]'')) 1
      = Inr ''["EOSE"]\<newline>["NOTICE"]''\<close>
    by (rule read_string_guest_says) simp_all
  have s3: "read_string (result_memory (guest_says ''not json'')) 1 = Inr ''not json''"
    by (rule read_string_guest_says) simp_all
  have i: "event_ids seen_a = {''a''}" by simp
  have d1: "every_candidate_dropped json_parse (send_prepare json_parse close_s1 {''a''}) event_foo_bogus"
    by code_simp
  have d2: \<open>every_candidate_dropped json_parse (send_prepare json_parse close_s1 {''a''})
      ''["EOSE"]\<newline>["NOTICE"]''\<close>
    by code_simp
  have d3: "\<not> duplicate_event json_parse (send_prepare json_parse close_s1 {''a''}) ''not json''"
    by code_simp
  have n3: "CHR 0x0A \<notin> set ''not json''" by simp
  from send_empty_when_all_dropped [OF m w r z s1, of json_parse] d1 i
  have a: "fst (send json_parse seen_a close_s1 (guest_says event_foo_bogus)) = Inr []" by simp
  from send_empty_when_all_dropped [OF m w r z s2, of json_parse] d2 i
  have b: \<open>fst (send json_parse seen_a close_s1 (guest_says ''["EOSE"]\<newline>["NOTICE"]'')) = Inr []\<close>
    by simp
  from send_empty_when_all_dropped [OF m w r z s3, of json_parse] d3 n3 i
  have c: "fst (send json_parse seen_a close_s1 (guest_says ''not json'')) = Inr ''not json''"
    by simp
  from a b c show ?thesis by simp
qed

text \<open>
  C10 as stated fails: the reply \<^verbatim>\<open>FOO\<close> is a single candidate that fails to parse, one of
  the reasons the claim gives for a drop, and \<^verbatim>\<open>send\<close> returns \<^verbatim>\<open>FOO\<close>, not the empty
  string.
\<close>

theorem unparsable_single_reply_counterexample:
  "json_parse ''FOO'' = None \<and> CHR 0x0A \<notin> set ''FOO'' \<and>
   fst (send json_parse example_cassette req_s1 (guest_says ''FOO'')) = Inr ''FOO''"
proof -
  have p: "json_parse ''FOO'' = None" by code_simp
  have pm: "process_messages json_parse ''FOO'' (send_prepare json_parse req_s1 {}) = ([''FOO''], {})"
    by code_simp
  have "fst (send json_parse example_cassette req_s1 (guest_says ''FOO'')) = Inr ''FOO''"
    using send_guest_says [of example_cassette req_s1 "''FOO''" json_parse] pm
    by (simp add: example_cassette_def join_filtered_def)
  with p show ?thesis by simp
qed

section \<open>describe and the benchmark exit status\<close>

lemma stoi_examples:
  "stoi ''5'' = Some 5" "stoi '' 12abc'' = Some 12" "stoi ''abc'' = None"
  "stoi ''99999999999'' = None" "stoi ''-5'' = Some (- 5)"
  by (simp_all add: stoi_def is_space_def is_digit_def Let_def)

text \<open>
  C4, as the code has it. With the \<^verbatim>\<open>describe\<close> export present, \<^verbatim>\<open>describe()\<close> raises
  \<^verbatim>\<open>std::runtime_error("describe function failed")\<close> when the call yields no \<^verbatim>\<open>i32\<close>, and
  returns the string read at the result pointer when that pointer is positive.
\<close>

theorem describe_result:
  assumes "\<not> mutex_held c" and "describe_func c"
  shows "(result_i32 (call_results g) = None \<longrightarrow>
            describe parse c g = Inl (RuntimeError ''describe function failed'')) \<and>
         (result_i32 (call_results g) = Some ptr \<and> 0 < sint ptr \<and> length (result_memory g) \<le> 2 ^ 32 \<longrightarrow>
            (\<exists>s. read_string (result_memory g) ptr = Inr s \<and> describe parse c g = Inr s))"
  using assms by (auto simp: describe_def read_string_in_range)

text \<open>
  A guest whose \<^verbatim>\<open>describe\<close> returns nothing, and one that returns the address of a
  text.
\<close>

theorem describe_result_witness:
  "describe json_parse example_cassette (guest_returns [] [])
     = Inl (RuntimeError ''describe function failed'') \<and>
   describe json_parse example_cassette (guest_says ''demo cassette'') = Inr ''demo cassette''"
proof -
  have m: "\<not> mutex_held example_cassette" and d: "describe_func example_cassette"
    by (simp_all add: example_cassette_def)
  have r0: "result_i32 (call_results (guest_returns [] [])) = None"
    by (simp add: guest_returns_def result_i32_def)
  have r1: "result_i32 (call_results (guest_says ''demo cassette'')) = Some 1"
    by (simp add: guest_says_def guest_returns_def result_i32_def)
  have p: "0 < sint (1 :: 32 word)" by simp
  have l: "length (result_memory (guest_says ''demo cassette'')) \<le> 2 ^ 32"
    by (simp add: guest_says_def guest_returns_def)
  have s: "read_string (result_memory (guest_says ''demo cassette'')) 1 = Inr ''demo cassette''"
    by (rule read_string_guest_says) simp_all
  show ?thesis
    using describe_result [OF m d, of "guest_returns [] []" json_parse 1]
      describe_result [OF m d, of "guest_says ''demo cassette''" json_parse 1] r0 r1 p l s
    by auto
qed

text \<open>
  C4 as stated fails: a \<^verbatim>\<open>describe\<close> export that returns no value makes
  \<^verbatim>\<open>describe()\<close> raise, and so does one that returns a null pointer (raised by
  \<^verbatim>\<open>read_string\<close>).
\<close>

theorem describe_raises_counterexample:
  "describe json_parse example_cassette (guest_returns [] [])
     = Inl (RuntimeError ''describe function failed'') \<and>
   describe json_parse example_cassette (guest_returns [I32 0] [])
     = Inl (RuntimeError ''null pointer'')"
  by (simp add: describe_def example_cassette_def guest_returns_def result_i32_def read_string_def)

text \<open>
  Without the export, \<^verbatim>\<open>describe()\<close> calls \<^verbatim>\<open>info()\<close> while it holds the instance mutex,
  which \<^verbatim>\<open>info()\<close> locks again: the call does not come back.
\<close>

lemma describe_without_export:
  assumes "\<not> mutex_held c" and "\<not> describe_func c"
  shows "describe parse c g = Inl SelfDeadlock"
  using assms by (simp add: describe_def info_def)

text \<open>
  The synthesis step on its own: an \<^verbatim>\<open>info\<close> string that fails to parse gives the
  constant stub.
\<close>

lemma describe_from_info_parse_failure:
  "parse info_str = None \<Longrightarrow> describe_from_info parse info_str = ''Cassette module''"
  by (simp add: describe_from_info_def)

lemma describe_from_info_examples:
  \<open>describe_from_info json_parse ''{"name":"x","supported_nips":[1,22,-3]}'' = ''x (supports NIPs: 1, 22, -3)''\<close>
  \<open>describe_from_info json_parse ''{"supported_nips": []}'' = ''Cassette''\<close>
  \<open>describe_from_info json_parse ''{"supported_nips": ["x"]}'' = ''Cassette module''\<close>
  by code_simp+

text \<open>
  C9, as the code has it. Whenever \<^verbatim>\<open>main\<close> returns, its status is 1 if the arguments
  name no cassette path (there are no arguments, or only the iterations flag and its
  value) and 0 otherwise, whether or not any of the paths exists or loads.
\<close>

theorem main_exit_status:
  assumes "main env args \<noteq> Terminated"
  shows "main env args = Exit (if cassette_paths_of args = [] then 1 else 0)"
  using assms
  by (auto simp: main_def cassette_paths_of_def split: option.splits if_splits)

text \<open>
  One path with an iteration count, the iteration count alone, and no argument.
\<close>

theorem main_exit_status_witness:
  "main all_loadable [''a.wasm'', ''-i'', ''5''] = Exit 0 \<and> main all_loadable [''-i'', ''5''] = Exit 1 \<and>
   main all_loadable [] = Exit 1"
proof -
  have p: "parse_arguments [''a.wasm'', ''-i'', ''5''] 100 [] = Some (5, [''a.wasm''])"
    "parse_arguments [''-i'', ''5''] 100 [] = Some (5, [])"
    by (simp_all add: stoi_examples)
  have t: "main all_loadable [''a.wasm'', ''-i'', ''5''] \<noteq> Terminated"
    "main all_loadable [''-i'', ''5''] \<noteq> Terminated" "main all_loadable [] \<noteq> Terminated"
    by (simp_all add: main_def stoi_examples all_loadable_def)
  have c: "cassette_paths_of [''a.wasm'', ''-i'', ''5''] = [''a.wasm'']"
    "cassette_paths_of [''-i'', ''5''] = []" "cassette_paths_of [] = []"
    by (simp_all add: cassette_paths_of_def stoi_examples)
  show ?thesis
    using main_exit_status [OF t(1)] main_exit_status [OF t(2)] main_exit_status [OF t(3)] c
    by simp
qed

text \<open>
  C9 as stated fails: the only path given does not exist, no cassette is resolvable, and
  \<^verbatim>\<open>main\<close> returns 0.
\<close>

theorem main_unresolvable_counterexample:
  "outcome nothing_found ''missing.wasm'' = NotFound \<and> main nothing_found [''missing.wasm''] = Exit 0"
  by (simp add: main_def nothing_found_def)

text \<open>
  An iteration count that is no number ends the program by an exception nothing
  catches.
\<close>

lemma main_stoi_terminates:
  "main all_loadable [''a.wasm'', ''-i'', ''many''] = Terminated"
  by (simp add: main_def stoi_def is_space_def is_digit_def Let_def)

section \<open>The percentile\<close>

lemma bitlen_eqI:
  assumes "2 ^ k \<le> x" and "x < 2 ^ Suc k"
  shows "bitlen x = int (Suc k)"
proof -
  have a: "2 ^ k \<le> nat x" using assms(1) by (simp add: le_nat_iff)
  have "x > 0" using assms(1) by (smt (verit) zero_less_power)
  then have b: "nat x < 2 ^ Suc k" using assms(2) by (simp add: nat_less_iff)
  have "floorlog 2 (nat x) \<le> Suc k" by (rule floorlog_leI [OF b]) simp_all
  moreover have "Suc k \<le> floorlog 2 (nat x)" by (rule floorlog_ge_SucI [OF a]) simp
  ultimately show ?thesis by (simp add: bitlen_def)
qed

lemma bitlen_le:
  assumes "x < 2 ^ k"
  shows "bitlen x \<le> int k"
proof (cases "0 < x")
  case True
  then have "nat x < 2 ^ k" using assms by (simp add: nat_less_iff)
  then have "floorlog 2 (nat x) \<le> k" by (rule floorlog_leI) simp_all
  then show ?thesis by (simp add: bitlen_def)
next
  case False
  then have "bitlen x = 0" by (simp add: bitlen_eq_zero_iff)
  then show ?thesis by simp
qed

lemma of_size_exact:
  assumes "n < 2 ^ 31"
  shows "of_size n = Double (int n) 0"
proof -
  have "int n < 2 ^ 31" using assms by (simp flip: of_nat_less_iff)
  then have "bitlen (int n) \<le> 31" using bitlen_le [of "int n" 31] by simp
  then show ?thesis by (simp add: of_size_def round53_def)
qed

lemma floor_dval_nonneg:
  assumes "0 \<le> M"
  shows "\<lfloor>dval (Double M E)\<rfloor> = (if 0 \<le> E then M * 2 ^ nat E else M div 2 ^ nat (- E))"
proof (cases "0 \<le> E")
  case True
  have "dval (Double M E) = of_int (M * 2 ^ nat E)" using True by (simp add: dval_def)
  then show ?thesis using True by (simp only: floor_of_int if_True)
next
  case False
  have "dval (Double M E) = of_int M / of_int (2 ^ nat (- E))" using False by (simp add: dval_def)
  then show ?thesis using False by (simp only: floor_divide_of_int_eq if_False)
qed

lemma to_int_nonneg:
  assumes "0 \<le> M"
  shows "to_int (Double M E) =
     (if \<lfloor>dval (Double M E)\<rfloor> \<le> 2147483647 then Some \<lfloor>dval (Double M E)\<rfloor> else None)"
proof (cases "0 \<le> E")
  case True
  have "0 \<le> M * 2 ^ nat E" using assms by simp
  then have "- 2147483648 \<le> M * 2 ^ nat E" by linarith
  then show ?thesis
    using True assms by (simp add: to_int_def Let_def floor_dval_nonneg)
next
  case False
  have s: "sgn M * (\<bar>M\<bar> div 2 ^ nat (- E)) = M div 2 ^ nat (- E)"
    using assms by (cases "M = 0") (simp_all add: sgn_if)
  have "0 \<le> M div 2 ^ nat (- E)"
    using assms by (simp add: pos_imp_zdiv_nonneg_iff)
  then have "- 2147483648 \<le> M div 2 ^ nat (- E)" by linarith
  then show ?thesis
    using False assms by (simp add: to_int_def Let_def floor_dval_nonneg s del: abs_of_nonneg)
qed

text \<open>Rounding a non-negative value to 53 bits and truncating it gives its floor, or the
  next integer when the value rounds up to it.\<close>

lemma round53_trunc:
  assumes "0 \<le> M" and "to_int (round53 M E) = Some index"
  shows "index = \<lfloor>dval (Double M E)\<rfloor> \<or> index = \<lfloor>dval (Double M E)\<rfloor> + 1"
proof (cases "bitlen \<bar>M\<bar> - 53 \<le> 0")
  case True
  then have "round53 M E = Double M E" by (simp add: round53_def)
  with assms show ?thesis by (simp add: to_int_nonneg split: if_splits)
next
  case False
  define s where "s = nat (bitlen M - 53)"
  have aM: "\<bar>M\<bar> = M" using assms(1) by simp
  from False aM have sp: "0 < s" and bl: "bitlen M = 53 + int s" by (simp_all add: s_def)
  have Mpos: "0 < M" using bl bitlen_eq_zero_iff [of M] bitlen_nonneg [of M] by (cases "0 < M") auto
  define q where "q = M div 2 ^ s"
  define q' where "q' = (if 2 ^ s < 2 * (M mod 2 ^ s) \<or> (2 * (M mod 2 ^ s) = 2 ^ s \<and> odd q) then q + 1 else q)"
  have r: "round53 M E = Double q' (E + int s)"
    unfolding round53_def Let_def aM q'_def q_def using bl sp Mpos by (simp add: sgn_if)
  have "2 ^ nat (bitlen M - 1) \<le> M" using bitlen_bounds [OF Mpos] by simp
  moreover have "nat (bitlen M - 1) = 52 + s" using bl by simp
  ultimately have "(2::int) ^ 52 * 2 ^ s \<le> M" by (simp add: power_add)
  then have "(2::int) ^ 52 * 2 ^ s div 2 ^ s \<le> M div 2 ^ s" by (rule zdiv_mono1) simp
  then have q52: "2 ^ 52 \<le> q" by (simp add: q_def)
  have q'q: "q' = q \<or> q' = q + 1" by (simp add: q'_def)
  then have q'52: "2 ^ 52 \<le> q'" using q52 by auto
  have neg: "E + int s < 0"
  proof (rule ccontr)
    assume "\<not> E + int s < 0"
    then have e: "0 \<le> E + int s" by simp
    have "(1::int) \<le> 2 ^ nat (E + int s)" by simp
    moreover have "0 \<le> q'" using q'52 by simp
    ultimately have "q' * 1 \<le> q' * 2 ^ nat (E + int s)" by (rule mult_left_mono)
    then have "2 ^ 52 \<le> q' * 2 ^ nat (E + int s)" using q'52 by linarith
    then have "to_int (Double q' (E + int s)) = None"
      using e by (simp add: to_int_def Let_def)
    with assms(2) r show False by simp
  qed
  define k where "k = nat (- (E + int s))"
  have Ek: "nat (- E) = s + k" and Eneg: "E < 0" using neg by (simp_all add: k_def)
  have idx: "index = q' div 2 ^ k"
  proof -
    have "0 \<le> q'" using q'52 by simp
    then have "to_int (Double q' (E + int s)) =
        (if q' div 2 ^ k \<le> 2147483647 then Some (q' div 2 ^ k) else None)"
      using neg by (simp add: to_int_nonneg floor_dval_nonneg k_def)
    with assms(2) r show ?thesis by (simp split: if_splits)
  qed
  have fl: "\<lfloor>dval (Double M E)\<rfloor> = q div 2 ^ k"
  proof -
    have "\<lfloor>dval (Double M E)\<rfloor> = M div 2 ^ (s + k)"
      using assms(1) Eneg Ek by (simp add: floor_dval_nonneg)
    also have "\<dots> = M div (2 ^ s * 2 ^ k)" by (simp add: power_add)
    also have "\<dots> = q div 2 ^ k" by (simp add: q_def zdiv_zmult2_eq)
    finally show ?thesis .
  qed
  have "q div 2 ^ k \<le> (q + 1) div 2 ^ k" by (rule zdiv_mono1) simp_all
  moreover have "(q + 1) div 2 ^ k \<le> q div 2 ^ k + 1"
  proof -
    have "(q + 1) div 2 ^ k \<le> (q + 2 ^ k) div 2 ^ k" by (rule zdiv_mono1) simp_all
    then show ?thesis by simp
  qed
  ultimately show ?thesis using q'q idx fl by auto
qed

lemma product_value:
  "real n * dval (Double m e) = dval (Double (int n * m) e)"
  by (simp add: dval_def)

text \<open>
  C8, as the code has it. For a non-empty sample of fewer than \<open>2 ^ 31\<close> values and a
  non-negative \<open>p\<close> whose product with the sample size fits an \<^verbatim>\<open>int\<close>, \<^verbatim>\<open>percentile\<close> returns
  the value at the ascending-sorted index \<open>min index (n - 1)\<close>, where \<open>index\<close> is the
  rounded double product truncated: it is \<open>floor (p * n)\<close>, or \<open>floor (p * n) + 1\<close> when
  the product rounds up to the next integer. For an empty sample it returns 0.
\<close>

theorem percentile_index:
  assumes "values \<noteq> []" and "length values < 2 ^ 31" and "0 \<le> m"
    and "to_int (mult_double (of_size (length values)) (Double m e)) = Some index"
  shows "percentile [] (Double m e) = Some 0 \<and>
         percentile values (Double m e) = Some (sort values ! nat (min index (int (length values) - 1))) \<and>
         (index = \<lfloor>real (length values) * dval (Double m e)\<rfloor> \<or>
          index = \<lfloor>real (length values) * dval (Double m e)\<rfloor> + 1)"
proof -
  let ?n = "length values"
  have os: "of_size ?n = Double (int ?n) 0" by (rule of_size_exact [OF assms(2)])
  have md: "mult_double (of_size ?n) (Double m e) = round53 (int ?n * m) e"
    by (simp add: os mult_double_def)
  have nn: "0 \<le> int ?n * m" using assms(3) by simp
  from assms(4) md have ti: "to_int (round53 (int ?n * m) e) = Some index" by simp
  have b: "index = \<lfloor>real ?n * dval (Double m e)\<rfloor> \<or> index = \<lfloor>real ?n * dval (Double m e)\<rfloor> + 1"
    using round53_trunc [OF nn ti] by (simp only: product_value)
  have "0 \<le> real ?n * dval (Double m e)" using assms(3) by (simp add: dval_def)
  then have "0 \<le> \<lfloor>real ?n * dval (Double m e)\<rfloor>" by simp
  with b have i0: "0 \<le> index" by auto
  have w: "sint (word_of_nat (?n - 1) :: 32 word) = int ?n - 1"
  proof -
    define k where "k = ?n - 1"
    have kn: "int k = int ?n - 1" using assms(1) by (cases "values") (simp_all add: k_def)
    have "int k < 2 ^ 31" using assms(2) kn by simp
    then have "signed_take_bit 31 (int k) = int k"
      by (intro signed_take_bit_int_eq_self) simp_all
    moreover have "sint (word_of_nat k :: 32 word) = signed_take_bit 31 (int k)"
      by (simp add: signed_of_nat)
    ultimately show ?thesis using kn by (simp add: k_def)
  qed
  have n0: "0 \<le> int ?n - 1" using assms(1) by (cases "values") simp_all
  have "percentile values (Double m e) = Some (sort values ! nat (min index (int ?n - 1)))"
  proof -
    have mn: "\<not> min index (int ?n - 1) < 0" using i0 n0 by linarith
    show ?thesis
      unfolding percentile_def w using assms(1,4) mn by (simp add: Let_def)
  qed
  then show ?thesis using b by (simp add: percentile_def)
qed

text \<open>The median of three values, and the empty sample.\<close>

theorem percentile_index_witness:
  "percentile [3, 1, 2] (Double 1 (- 1)) = Some 2 \<and> percentile [] (Double 1 (- 1)) = Some 0"
proof -
  have b: "bitlen 3 = 2" using bitlen_eqI [of 1 3] by simp
  have o: "of_size 3 = Double 3 0" by (simp add: of_size_def round53_def b)
  have l3: "length [3, 1, 2 :: real] = 3" by simp
  have "to_int (mult_double (of_size 3) (Double 1 (- 1))) = Some 1"
    by (simp add: o mult_double_def round53_def b to_int_def Let_def)
  then have t: "to_int (mult_double (of_size (length [3, 1, 2 :: real])) (Double 1 (- 1))) = Some 1"
    by (simp only: l3)
  have n: "[3, 1, 2 :: real] \<noteq> []" and l: "length [3, 1, 2 :: real] < 2 ^ 31" and z: "(0 :: int) \<le> 1"
    by simp_all
  from percentile_index [OF n l z t] show ?thesis by simp
qed

text \<open>
  C8 as stated fails. The sample is \<open>0, 1, \<dots>, 99\<close> and \<open>p\<close> is the double nearest to 0.95
  (the P95 of the default 100 iterations): the exact product is \<open>95 - 40 / 2 ^ 53\<close>, whose
  floor is 94, but the product rounds to 95.0 and the code returns the value at index 95.
\<close>

theorem percentile_floor_counterexample:
  "\<lfloor>real (length (map real [0..<100])) * dval p95\<rfloor> = 94 \<and>
   sort (map real [0..<100]) ! nat (min 94 (int (length (map real [0..<100])) - 1)) = 94 \<and>
   percentile (map real [0..<100]) p95 = Some 95"
proof -
  have f: "\<lfloor>real 100 * dval p95\<rfloor> = 94"
    by (simp add: dval_def p95_def
        floor_divide_of_int_eq [where 'a=real, of 855683929200394200 9007199254740992, simplified])
  have b: "bitlen 855683929200394200 = 60" using bitlen_eqI [of 59 855683929200394200] by simp
  have "bitlen 100 = 7" using bitlen_eqI [of 6 100] by simp
  then have o: "of_size 100 = Double 100 0" by (simp add: of_size_def round53_def)
  have r: "mult_double (of_size 100) p95 = Double 6685030696878080 (- 46)"
    by (simp add: o mult_double_def p95_def round53_def b Let_def)
  have t: "to_int (Double 6685030696878080 (- 46)) = Some 95"
    by (simp add: to_int_def Let_def)
  have "sorted (map real [0..<100])"
    by (simp only: sorted_map) (simp add: sorted_wrt_iff_nth_less)
  then have s: "sort (map real [0..<100]) = map real [0..<100]"
    by (rule sort_key_id_if_sorted [of "\<lambda>x. x", simplified])
  have w: "sint (word_of_nat 99 :: 32 word) = 99" by simp
  have p: "percentile (map real [0..<100]) p95 = Some 95"
    unfolding percentile_def by (simp add: r t s w Let_def del: upt_Suc map_upt_Suc)
  have v: "sort (map real [0..<100]) ! nat (min 94 (int (length (map real [0..<100])) - 1)) = 94"
    by (simp add: s del: upt_Suc map_upt_Suc)
  from f v p show ?thesis by simp
qed

end
